theory Spec2Isabelle
  imports Complex_Main
begin

section \<open>Values exchanged with the host\<close>

text \<open>
  The circle selection gesture of Aladin Lite (\<^verbatim>\<open>src/js/FiniteStateMachine/CircleSelect.js\<close>).
  In the handlers JavaScript numbers are modelled as exact real numbers: \<^verbatim>\<open>Math.sqrt\<close> is
  the real square root and the arithmetic operators are the field operations. Where
  rounding decides, the geometry of the Region descriptor is modelled a second time in
  IEEE 754 double arithmetic.
\<close>

text \<open>A pointer position, the \<^verbatim>\<open>coo\<close> object with numeric \<^verbatim>\<open>x\<close> and \<^verbatim>\<open>y\<close>.\<close>

record coord =
  coo_x :: real
  coo_y :: real

text \<open>
  What a callback slot can hold: \<^verbatim>\<open>undefined\<close>, a function (identified by a number), or
  some other value. \<^verbatim>\<open>typeof v === 'function'\<close> is \<open>is_function\<close>.
\<close>

datatype jsvalue = Undefined | Function nat | NotCallable

fun is_function :: "jsvalue \<Rightarrow> bool" where
  "is_function (Function f) = True"
| "is_function Undefined = False"
| "is_function NotCallable = False"

text \<open>
  The \<^verbatim>\<open>params\<close> object of an event. The handlers destructure \<^verbatim>\<open>{callback}\<close> or
  \<^verbatim>\<open>{coo}\<close> from it; a property that is not there reads as \<^verbatim>\<open>undefined\<close>.
\<close>

record params =
  p_callback :: jsvalue
  p_coo :: "coord option"

datatype error = TypeError

section \<open>The Region descriptor\<close>

text \<open>
  The object literal handed to the completion callback has the properties \<^verbatim>\<open>x\<close>, \<^verbatim>\<open>y\<close>,
  \<^verbatim>\<open>r\<close>, \<^verbatim>\<open>label\<close> and the methods \<^verbatim>\<open>contains\<close> and \<^verbatim>\<open>bbox\<close>. The methods read the
  local variables \<^verbatim>\<open>x\<close>, \<^verbatim>\<open>y\<close>, \<^verbatim>\<open>r\<close>, \<^verbatim>\<open>r2\<close> of the handler invocation that built the
  object (fields \<open>cap_x\<close>, \<open>cap_y\<close>, \<open>cap_r\<close>, \<open>cap_r2\<close>), not the properties of the object.
\<close>

record region =
  reg_x :: real
  reg_y :: real
  reg_r :: real
  reg_label :: string
  cap_x :: real
  cap_y :: real
  cap_r :: real
  cap_r2 :: real

record box =
  box_x :: real
  box_y :: real
  box_w :: real
  box_h :: real


definition bbox :: "region \<Rightarrow> box" where
  "bbox reg =
     \<lparr>box_x = cap_x reg - cap_r reg,
      box_y = cap_y reg - cap_r reg,
      box_w = 2 * cap_r reg,
      box_h = 2 * cap_r reg\<rparr>"

text \<open>The object literal of the finalization handler, for its locals \<^verbatim>\<open>x\<close>, \<^verbatim>\<open>y\<close>, \<^verbatim>\<open>r\<close>, \<^verbatim>\<open>r2\<close>.\<close>

definition circle_region :: "real \<Rightarrow> real \<Rightarrow> real \<Rightarrow> real \<Rightarrow> region" where
  "circle_region x y r r2 =
     \<lparr>reg_x = x, reg_y = y, reg_r = r, reg_label = ''circle'',
      cap_x = x, cap_y = y, cap_r = r, cap_r2 = r2\<rparr>"

section \<open>The view collaborator\<close>

text \<open>
  Modelled from the spec: the view class is not part of the sources at hand. Its
  interaction mode is one of an enumerated set that includes "select" and "pan"
  (\<^verbatim>\<open>View.SELECT\<close>, \<^verbatim>\<open>View.PAN\<close>).
\<close>

datatype mode = SELECT | PAN

text \<open>
  Every call the controller makes on the view, on its drawing context and on callbacks is
  recorded, in order. \<open>SelectObjects a c\<close> is \<^verbatim>\<open>view.selectObjects(this)\<close> with the anchor
  and pointer position the controller holds at that moment; \<open>Callback f reg\<close> is the
  completion callback \<open>f\<close> applied to the Region descriptor; \<open>SelectCallback g\<close> is the
  view's "select" callback applied to the selected objects. The methods of the view and the
  callbacks are taken to return normally and not to dispatch events themselves.
\<close>

datatype call =
    SetCursor string
  | ShowReticle bool
  | SetMode mode
  | RequestRedraw
  | ClearRect real real real real
  | SetFillStyle string
  | SetStrokeStyle string
  | SetLineWidth real
  | BeginPath
  | Arc real real real real real
  | Fill
  | Stroke
  | Callback nat region
  | SelectObjects "coord option" "coord option"
  | SelectCallback nat

record view =
  catalogCanvasCleared :: bool
  width :: real
  height :: real
  callbacksByEventName :: "(string \<Rightarrow> jsvalue) option"
  calls :: "call list"

record options =
  color :: string
  lineWidth :: real

section \<open>The gesture controller\<close>

record circle_select =
  state :: string
  callback :: jsvalue
  startCoo :: "coord option"
  coo :: "coord option"
  view :: view

text \<open>
  A handler either completes, or throws and leaves the controller as it was at the
  throw (\<open>Inl\<close>).
\<close>

type_synonym outcome = "(error \<times> circle_select) + circle_select"

definition emit :: "call \<Rightarrow> circle_select \<Rightarrow> circle_select" where
  "emit c m = m\<lparr>view := (view m)\<lparr>calls := calls (view m) @ [c]\<rparr>\<rparr>"

definition start :: "params option \<Rightarrow> circle_select \<Rightarrow> outcome" where
  "start ps m =
     (case ps of
        None \<Rightarrow> Inl (TypeError, m)
      | Some p \<Rightarrow>
          Inr (emit (SetMode SELECT)
                ((emit (ShowReticle False) (emit (SetCursor ''crosshair'') m))
                   \<lparr>callback := p_callback p\<rparr>)))"

definition mousedown :: "params option \<Rightarrow> circle_select \<Rightarrow> outcome" where
  "mousedown ps m =
     (case ps of
        None \<Rightarrow> Inl (TypeError, m)
      | Some p \<Rightarrow> Inr (m\<lparr>startCoo := p_coo p\<rparr>))"

definition mousemove :: "params option \<Rightarrow> circle_select \<Rightarrow> outcome" where
  "mousemove ps m =
     (case ps of
        None \<Rightarrow> Inl (TypeError, m)
      | Some p \<Rightarrow> Inr (emit RequestRedraw (m\<lparr>coo := p_coo p\<rparr>)))"

text \<open>The squared distance both \<^verbatim>\<open>draw\<close> and \<^verbatim>\<open>mouseup\<close> compute as \<^verbatim>\<open>r2\<close>.\<close>

definition sqdist :: "coord \<Rightarrow> coord \<Rightarrow> real" where
  "sqdist c s =
     (coo_x c - coo_x s) * (coo_x c - coo_x s) + (coo_y c - coo_y s) * (coo_y c - coo_y s)"

definition clear_once :: "circle_select \<Rightarrow> circle_select" where
  "clear_once m =
     (if \<not> catalogCanvasCleared (view m)
      then (let m1 = emit (ClearRect 0 0 (width (view m)) (height (view m))) m
            in m1\<lparr>view := (view m1)\<lparr>catalogCanvasCleared := True\<rparr>\<rparr>)
      else m)"

definition draw :: "options \<Rightarrow> params option \<Rightarrow> circle_select \<Rightarrow> outcome" where
  "draw opts ps m =
     (let m1 = clear_once m;
          m2 = emit (SetLineWidth (lineWidth opts))
                 (emit (SetStrokeStyle (color opts))
                    (emit (SetFillStyle (color opts @ ''7f'')) m1))
      in case coo m2 of
           None \<Rightarrow> Inl (TypeError, m2)
         | Some c \<Rightarrow>
             (case startCoo m2 of
                None \<Rightarrow> Inl (TypeError, m2)
              | Some s \<Rightarrow>
                  (let r2 = sqdist c s;
                       r = sqrt r2
                   in Inr (emit Stroke (emit Fill
                        (emit (Arc (coo_x s) (coo_y s) r 0 (2 * pi))
                           (emit BeginPath m2)))))))"

text \<open>The general "select" notification at the end of a gesture.\<close>

definition notify_select :: "circle_select \<Rightarrow> circle_select" where
  "notify_select m =
     (case callbacksByEventName (view m) of
        None \<Rightarrow> m
      | Some cbs \<Rightarrow>
          (case cbs ''select'' of
             Function g \<Rightarrow> emit (SelectCallback g) (emit (SelectObjects (startCoo m) (coo m)) m)
           | Undefined \<Rightarrow> m
           | NotCallable \<Rightarrow> m))"

definition invoke_callback :: "region \<Rightarrow> circle_select \<Rightarrow> circle_select" where
  "invoke_callback reg m =
     (case callback m of
        Function f \<Rightarrow> emit (Callback f reg) m
      | Undefined \<Rightarrow> m
      | NotCallable \<Rightarrow> m)"

definition mouseup :: "params option \<Rightarrow> circle_select \<Rightarrow> outcome" where
  "mouseup ps m =
     (case ps of
        None \<Rightarrow> Inl (TypeError, m)
      | Some p \<Rightarrow>
          (let m1 = m\<lparr>coo := p_coo p\<rparr>
           in case coo m1 of
                None \<Rightarrow> Inl (TypeError, m1)
              | Some c \<Rightarrow>
                  (case startCoo m1 of
                     None \<Rightarrow> Inl (TypeError, m1)
                   | Some s \<Rightarrow>
                       (let r2 = sqdist c s;
                            r = sqrt r2;
                            x = coo_x s;
                            y = coo_y s;
                            m2 = invoke_callback (circle_region x y r r2) m1;
                            m3 = emit (SetCursor ''default'') (emit (ShowReticle True) m2);
                            m4 = notify_select m3
                        in Inr (emit RequestRedraw (emit (SetMode PAN) m4))))))"

definition mouseout :: "params option \<Rightarrow> circle_select \<Rightarrow> outcome" where
  "mouseout = mouseup"

text \<open>The transition table of the constructor: state name, then event name, then handler.\<close>

definition transitions ::
  "options \<Rightarrow> (string \<times> (string \<times> (params option \<Rightarrow> circle_select \<Rightarrow> outcome)) list) list" where
  "transitions opts =
     [(''start'', [(''mousedown'', mousedown)]),
      (''mousedown'', [(''mousemove'', mousemove)]),
      (''mousemove'', [(''draw'', draw opts), (''mouseup'', mouseup), (''mouseout'', mouseout)]),
      (''draw'', [(''mousemove'', mousemove), (''mouseup'', mouseup), (''mouseout'', mouseout)]),
      (''mouseout'', [(''start'', start)]),
      (''mouseup'', [(''start'', start)])]"

text \<open>The constructor: a controller in state \<^verbatim>\<open>'mouseup'\<close> over the given view.\<close>

definition CircleSelect :: "view \<Rightarrow> circle_select" where
  "CircleSelect v =
     \<lparr>state = ''mouseup'', callback = Undefined, startCoo = None, coo = None, view = v\<rparr>"

section \<open>The engine\<close>

text \<open>
  Modelled from the spec: the base class \<^verbatim>\<open>FSM\<close> (\<^verbatim>\<open>src/js/FiniteStateMachine.js\<close>) is
  not part of the sources at hand. Its \<^verbatim>\<open>dispatch\<close> looks up
  \<^verbatim>\<open>transitions[currentState][eventName]\<close>; \<open>handler_at\<close> is that lookup in the table
  of the constructor, \<open>None\<close> when the handler is absent.
\<close>

definition handler_at ::
  "options \<Rightarrow> string \<Rightarrow> string \<Rightarrow> (params option \<Rightarrow> circle_select \<Rightarrow> outcome) option" where
  "handler_at opts s e =
     (case map_of (transitions opts) s of
        None \<Rightarrow> None
      | Some row \<Rightarrow> map_of row e)"

text \<open>
  Modelled from the spec: \<^verbatim>\<open>dispatch(eventName, params)\<close> of the base class \<^verbatim>\<open>FSM\<close>, which
  is not part of the sources at hand. If the handler is absent, this is a no-op. If present,
  it invokes the handler with \<^verbatim>\<open>params\<close>, then sets the current state to the event name.
  A handler that throws leaves the current state as it was.
\<close>

definition dispatch :: "options \<Rightarrow> string \<Rightarrow> params option \<Rightarrow> circle_select \<Rightarrow> outcome" where
  "dispatch opts e ps m =
     (case handler_at opts (state m) e of
        None \<Rightarrow> Inr m
      | Some handler \<Rightarrow>
          (case handler ps m of
             Inl err \<Rightarrow> Inl err
           | Inr m' \<Rightarrow> Inr (m'\<lparr>state := e\<rparr>)))"

text \<open>
  A script of dispatches, one after the other; an exception thrown by a handler ends
  the script.
\<close>

fun run :: "options \<Rightarrow> (string \<times> params option) list \<Rightarrow> circle_select \<Rightarrow> outcome" where
  "run opts [] m = Inr m"
| "run opts ((e, ps) # es) m =
     (case dispatch opts e ps m of
        Inl err \<Rightarrow> Inl err
      | Inr m' \<Rightarrow> run opts es m')"

section \<open>Observations\<close>

text \<open>The controller an outcome leaves behind, thrown or not.\<close>

definition settled :: "outcome \<Rightarrow> circle_select" where
  "settled out = (case out of Inl (err, m) \<Rightarrow> m | Inr m \<Rightarrow> m)"

text \<open>The Region descriptors handed to completion callbacks, in order of delivery.\<close>

definition delivered :: "call list \<Rightarrow> region list" where
  "delivered cs = concat (map (\<lambda>c. case c of Callback f reg \<Rightarrow> [reg] | _ \<Rightarrow> []) cs)"

text \<open>
  The calls of the completion callback and of the "select" notification, as the
  finalization handler issues them.
\<close>

definition callback_calls :: "jsvalue \<Rightarrow> region \<Rightarrow> call list" where
  "callback_calls k reg =
     (case k of Function f \<Rightarrow> [Callback f reg] | Undefined \<Rightarrow> [] | NotCallable \<Rightarrow> [])"

definition select_calls :: "circle_select \<Rightarrow> call list" where
  "select_calls m =
     (case callbacksByEventName (view m) of
        None \<Rightarrow> []
      | Some cbs \<Rightarrow>
          (case cbs ''select'' of
             Function g \<Rightarrow> [SelectObjects (startCoo m) (coo m), SelectCallback g]
           | Undefined \<Rightarrow> []
           | NotCallable \<Rightarrow> []))"

text \<open>
  Modelled from the spec: \<^verbatim>\<open>setMode(mode)\<close> of the view, which is not part of the sources
  at hand, switches the interaction mode; the mode in force is the one of the last
  \<^verbatim>\<open>setMode\<close> call.
\<close>

definition mode_calls :: "call list \<Rightarrow> mode list" where
  "mode_calls cs = concat (map (\<lambda>c. case c of SetMode md \<Rightarrow> [md] | _ \<Rightarrow> []) cs)"

definition current_mode :: "call list \<Rightarrow> mode option" where
  "current_mode cs = (if mode_calls cs = [] then None else Some (last (mode_calls cs)))"

text \<open>The mode is "pan" in the two idle states and "select" in every other state.\<close>

definition mode_follows_state :: "circle_select \<Rightarrow> bool" where
  "mode_follows_state m =
     (current_mode (calls (view m)) =
        Some (if state m = ''mouseup'' \<or> state m = ''mouseout'' then PAN else SELECT))"

text \<open>
  Two controllers that differ at most in gesture-local fields the table does not let a
  handler read before they are overwritten: in the idle states all three of them, after
  \<^verbatim>\<open>start\<close> the anchor and the pointer position, after \<^verbatim>\<open>mousedown\<close> the pointer position.
\<close>

definition stale_eq :: "circle_select \<Rightarrow> circle_select \<Rightarrow> bool" where
  "stale_eq m1 m2 =
     (state m1 = state m2 \<and> view m1 = view m2 \<and>
      (if state m1 = ''mouseup'' \<or> state m1 = ''mouseout'' then True
       else if state m1 = ''start'' then callback m1 = callback m2
       else if state m1 = ''mousedown''
       then callback m1 = callback m2 \<and> startCoo m1 = startCoo m2
       else callback m1 = callback m2 \<and> startCoo m1 = startCoo m2 \<and> coo m1 = coo m2))"

definition stale_eq_outcome :: "outcome \<Rightarrow> outcome \<Rightarrow> bool" where
  "stale_eq_outcome o1 o2 =
     (case o1 of
        Inl (e1, a) \<Rightarrow> (case o2 of Inl (e2, b) \<Rightarrow> e1 = e2 \<and> stale_eq a b | Inr b \<Rightarrow> False)
      | Inr a \<Rightarrow> (case o2 of Inl (e2, b) \<Rightarrow> False | Inr b \<Rightarrow> stale_eq a b))"

text \<open>What a host sees of an outcome: the exception if any, the state name and the view.\<close>

definition observe :: "outcome \<Rightarrow> error option \<times> string \<times> view" where
  "observe out =
     (case out of
        Inl (err, m) \<Rightarrow> (Some err, state m, view m)
      | Inr m \<Rightarrow> (None, state m, view m))"

text \<open>
  Events as the view delivers them: \<^verbatim>\<open>start\<close> and the pointer events come with a
  \<^verbatim>\<open>params\<close> object, and a pointer event carries a \<^verbatim>\<open>coo\<close>.
\<close>

definition wf_event :: "string \<times> params option \<Rightarrow> bool" where
  "wf_event ev =
     (case snd ev of
        None \<Rightarrow> fst ev \<notin> set [''start'', ''mousedown'', ''mousemove'', ''mouseup'', ''mouseout'']
      | Some p \<Rightarrow>
          (if fst ev \<in> set [''mousedown'', ''mousemove'', ''mouseup'', ''mouseout'']
           then p_coo p \<noteq> None else True))"

definition start_event :: "jsvalue \<Rightarrow> string \<times> params option" where
  "start_event k = (''start'', Some \<lparr>p_callback = k, p_coo = None\<rparr>)"

definition pointer_event :: "string \<Rightarrow> real \<Rightarrow> real \<Rightarrow> string \<times> params option" where
  "pointer_event name x y =
     (name, Some \<lparr>p_callback = Undefined, p_coo = Some \<lparr>coo_x = x, coo_y = y\<rparr>\<rparr>)"

text \<open>
  The anchor is there wherever \<^verbatim>\<open>mousemove\<close> can follow, the anchor and the pointer
  position wherever \<^verbatim>\<open>draw\<close>, \<^verbatim>\<open>mouseup\<close> or \<^verbatim>\<open>mouseout\<close> can.
\<close>

definition anchored :: "circle_select \<Rightarrow> bool" where
  "anchored m =
     (if state m = ''mousedown'' then startCoo m \<noteq> None
      else if state m = ''mousemove'' \<or> state m = ''draw''
      then startCoo m \<noteq> None \<and> coo m \<noteq> None
      else True)"

text \<open>Every event name a table registers a handler under is a state name of the table.\<close>

definition closed_table :: "(string \<times> (string \<times> 'h) list) list \<Rightarrow> bool" where
  "closed_table t = list_all (\<lambda>row. list_all (\<lambda>eh. fst eh \<in> set (map fst t)) (snd row)) t"

text \<open>The states a fresh instance can be in as long as no \<^verbatim>\<open>mousedown\<close> was dispatched.\<close>

definition idle_or_started :: "circle_select \<Rightarrow> bool" where
  "idle_or_started m = (state m = ''mouseup'' \<or> state m = ''mouseout'' \<or> state m = ''start'')"

section \<open>Double-precision arithmetic\<close>

text \<open>
  The handlers above compute on exact reals; what they call, in which order, and what they
  throw does not depend on rounding. Membership at the boundary of the circle does. For it
  the arithmetic of JavaScript numbers is modelled as IEEE 754 binary64 with rounding to
  nearest, ties to even: a number is a finite value, an infinity or NaN. Negative zero
  is identified with zero, which no operation below tells apart.
\<close>

datatype number = Finite real | PosInf | NegInf | NaN

text \<open>
  Rounding to the nearest integer, ties to the even one.
\<close>

definition round_half_even :: "real \<Rightarrow> int" where
  "round_half_even x =
     (let f = \<lfloor>x\<rfloor>; d = x - of_int f
      in if d < 1 / 2 then f
         else if 1 / 2 < d then f + 1
         else if even f then f else f + 1)"

text \<open>
  The double nearest to a real. The exponent of a normal number is that of the real, a
  subnormal one has exponent -1022; the unit in the last place is 52 binary places
  below; a result of 2^1024 or more in absolute value overflows to an infinity.
\<close>

definition round_double :: "real \<Rightarrow> number" where
  "round_double x =
     (if x = 0 then Finite 0
      else
        (let e = max \<lfloor>log 2 \<bar>x\<bar>\<rfloor> (- 1022);
             u = 2 powi (e - 52);
             y = of_int (round_half_even (x / u)) * u
         in if 2 ^ 1024 \<le> \<bar>y\<bar> then (if 0 < x then PosInf else NegInf) else Finite y))"

text \<open>
  The operators \<^verbatim>\<open>-x\<close>, \<^verbatim>\<open>+\<close>, \<^verbatim>\<open>-\<close>, \<^verbatim>\<open>*\<close> and \<^verbatim>\<open>Math.sqrt\<close> on numbers: the exact result of finite
  operands is rounded; infinities and NaN follow IEEE 754.
\<close>

definition js_neg :: "number \<Rightarrow> number" where
  "js_neg a = (case a of Finite x \<Rightarrow> Finite (- x) | PosInf \<Rightarrow> NegInf | NegInf \<Rightarrow> PosInf | NaN \<Rightarrow> NaN)"

definition js_add :: "number \<Rightarrow> number \<Rightarrow> number" where
  "js_add a b =
     (case a of
        NaN \<Rightarrow> NaN
      | PosInf \<Rightarrow> (case b of NaN \<Rightarrow> NaN | NegInf \<Rightarrow> NaN | PosInf \<Rightarrow> PosInf | Finite y \<Rightarrow> PosInf)
      | NegInf \<Rightarrow> (case b of NaN \<Rightarrow> NaN | PosInf \<Rightarrow> NaN | NegInf \<Rightarrow> NegInf | Finite y \<Rightarrow> NegInf)
      | Finite x \<Rightarrow>
          (case b of NaN \<Rightarrow> NaN | PosInf \<Rightarrow> PosInf | NegInf \<Rightarrow> NegInf
           | Finite y \<Rightarrow> round_double (x + y)))"

definition js_sub :: "number \<Rightarrow> number \<Rightarrow> number" where
  "js_sub a b = js_add a (js_neg b)"

definition js_mul :: "number \<Rightarrow> number \<Rightarrow> number" where
  "js_mul a b =
     (case a of
        NaN \<Rightarrow> NaN
      | PosInf \<Rightarrow>
          (case b of NaN \<Rightarrow> NaN | PosInf \<Rightarrow> PosInf | NegInf \<Rightarrow> NegInf
           | Finite y \<Rightarrow> if y = 0 then NaN else if 0 < y then PosInf else NegInf)
      | NegInf \<Rightarrow>
          (case b of NaN \<Rightarrow> NaN | PosInf \<Rightarrow> NegInf | NegInf \<Rightarrow> PosInf
           | Finite y \<Rightarrow> if y = 0 then NaN else if 0 < y then NegInf else PosInf)
      | Finite x \<Rightarrow>
          (case b of
             NaN \<Rightarrow> NaN
           | PosInf \<Rightarrow> if x = 0 then NaN else if 0 < x then PosInf else NegInf
           | NegInf \<Rightarrow> if x = 0 then NaN else if 0 < x then NegInf else PosInf
           | Finite y \<Rightarrow> round_double (x * y)))"

definition js_sqrt :: "number \<Rightarrow> number" where
  "js_sqrt a =
     (case a of
        NaN \<Rightarrow> NaN
      | PosInf \<Rightarrow> PosInf
      | NegInf \<Rightarrow> NaN
      | Finite x \<Rightarrow> if x < 0 then NaN else round_double (sqrt x))"

text \<open>
  The comparison \<^verbatim>\<open><=\<close>.
\<close>

definition js_le :: "number \<Rightarrow> number \<Rightarrow> bool" where
  "js_le a b =
     (case a of
        NaN \<Rightarrow> False
      | PosInf \<Rightarrow> (case b of PosInf \<Rightarrow> True | Finite y \<Rightarrow> False | NegInf \<Rightarrow> False | NaN \<Rightarrow> False)
      | NegInf \<Rightarrow> (case b of NaN \<Rightarrow> False | Finite y \<Rightarrow> True | PosInf \<Rightarrow> True | NegInf \<Rightarrow> True)
      | Finite x \<Rightarrow>
          (case b of NaN \<Rightarrow> False | PosInf \<Rightarrow> True | NegInf \<Rightarrow> False | Finite y \<Rightarrow> x \<le> y))"

text \<open>A number that is neither negative nor NaN.\<close>

definition nonneg_number :: "number \<Rightarrow> bool" where
  "nonneg_number a = (case a of Finite x \<Rightarrow> 0 \<le> x | PosInf \<Rightarrow> True | NegInf \<Rightarrow> False | NaN \<Rightarrow> False)"

section \<open>The Region descriptor in double-precision arithmetic\<close>

text \<open>
  A pointer position with coordinates that are doubles, the Region descriptor over them
  (properties \<^verbatim>\<open>x\<close>, \<^verbatim>\<open>y\<close>, \<^verbatim>\<open>r\<close>, \<^verbatim>\<open>label\<close> and the captured locals \<^verbatim>\<open>x\<close>, \<^verbatim>\<open>y\<close>, \<^verbatim>\<open>r\<close>, \<^verbatim>\<open>r2\<close>),
  and the object \<^verbatim>\<open>bbox()\<close> returns.
\<close>

record coord_double =
  js_x :: number
  js_y :: number

record region_double =
  dreg_x :: number
  dreg_y :: number
  dreg_r :: number
  dreg_label :: string
  dcap_x :: number
  dcap_y :: number
  dcap_r :: number
  dcap_r2 :: number


text \<open>
  The value \<^verbatim>\<open>r2\<close> of the finalization handler (line 84), with every operation rounded.
\<close>

definition sqdist_double :: "coord_double \<Rightarrow> coord_double \<Rightarrow> number" where
  "sqdist_double c s =
     js_add (js_mul (js_sub (js_x c) (js_x s)) (js_sub (js_x c) (js_x s)))
            (js_mul (js_sub (js_y c) (js_y s)) (js_sub (js_y c) (js_y s)))"

text \<open>
  The object literal the finalization handler builds (lines 84 to 106) for the anchor
  \<open>s\<close> (\<^verbatim>\<open>this.startCoo\<close>) and the release position \<open>c\<close> (\<^verbatim>\<open>this.coo\<close>).
\<close>

definition circle_region_double :: "coord_double \<Rightarrow> coord_double \<Rightarrow> region_double" where
  "circle_region_double s c =
     (let r2 = sqdist_double c s;
          r = js_sqrt r2;
          x = js_x s;
          y = js_y s
      in \<lparr>dreg_x = x, dreg_y = y, dreg_r = r, dreg_label = ''circle'',
          dcap_x = x, dcap_y = y, dcap_r = r, dcap_r2 = r2\<rparr>)"

text \<open>
  The method \<^verbatim>\<open>contains\<close> of that object (lines 92 to 97).
\<close>

definition contains_double :: "region_double \<Rightarrow> coord_double \<Rightarrow> bool" where
  "contains_double reg s =
     (let dx = js_sub (js_x s) (dcap_x reg);
          dy = js_sub (js_y s) (dcap_y reg)
      in js_le (js_add (js_mul dx dx) (js_mul dy dy)) (dcap_r2 reg))"


section \<open>The table and the handlers\<close>

lemma handler_at_simps:
  "handler_at opts ''start'' e = (if e = ''mousedown'' then Some mousedown else None)"
  "handler_at opts ''mousedown'' e = (if e = ''mousemove'' then Some mousemove else None)"
  "handler_at opts ''mousemove'' e =
     (if e = ''draw'' then Some (draw opts) else if e = ''mouseup'' then Some mouseup
      else if e = ''mouseout'' then Some mouseout else None)"
  "handler_at opts ''draw'' e =
     (if e = ''mousemove'' then Some mousemove else if e = ''mouseup'' then Some mouseup
      else if e = ''mouseout'' then Some mouseout else None)"
  "handler_at opts ''mouseout'' e = (if e = ''start'' then Some start else None)"
  "handler_at opts ''mouseup'' e = (if e = ''start'' then Some start else None)"
  by (simp_all add: handler_at_def transitions_def)

lemma handler_at_other:
  "s \<noteq> ''start'' \<Longrightarrow> s \<noteq> ''mousedown'' \<Longrightarrow> s \<noteq> ''mousemove'' \<Longrightarrow> s \<noteq> ''draw'' \<Longrightarrow>
   s \<noteq> ''mouseout'' \<Longrightarrow> s \<noteq> ''mouseup'' \<Longrightarrow> handler_at opts s e = None"
  by (simp add: handler_at_def transitions_def)


lemma bbox_circle:
  "bbox (circle_region x y r r2) = \<lparr>box_x = x - r, box_y = y - r, box_w = 2 * r, box_h = 2 * r\<rparr>"
  by (simp add: bbox_def circle_region_def)


lemma delivered_append: "delivered (xs @ ys) = delivered xs @ delivered ys"
  by (simp add: delivered_def)

lemma delivered_simps:
  "delivered [] = []"
  "delivered (Callback f reg # cs) = reg # delivered cs"
  "delivered (SetCursor k # cs) = delivered cs"
  "delivered (ShowReticle b # cs) = delivered cs"
  "delivered (SetMode md # cs) = delivered cs"
  "delivered (RequestRedraw # cs) = delivered cs"
  "delivered (SelectObjects a c # cs) = delivered cs"
  "delivered (SelectCallback g # cs) = delivered cs"
  by (simp_all add: delivered_def)

lemma mouseup_completes:
  assumes "startCoo m = Some s" and "p_coo p = Some c"
  shows "mouseup (Some p) m =
     Inr (m\<lparr>coo := Some c,
            view := (view m)\<lparr>calls := calls (view m)
              @ callback_calls (callback m) (circle_region (coo_x s) (coo_y s) (sqrt (sqdist c s)) (sqdist c s))
              @ [ShowReticle True, SetCursor ''default'']
              @ select_calls (m\<lparr>coo := Some c\<rparr>)
              @ [SetMode PAN, RequestRedraw]\<rparr>\<rparr>)"
  using assms
  by (simp add: mouseup_def Let_def invoke_callback_def notify_select_def emit_def
      select_calls_def callback_calls_def split: jsvalue.splits option.splits)



lemma dispatch_unregistered:
  "handler_at opts (state m) e = None \<Longrightarrow> dispatch opts e ps m = Inr m"
  by (simp add: dispatch_def)

lemma dispatch_registered:
  "handler_at opts (state m) e = Some h \<Longrightarrow>
   dispatch opts e ps m = (case h ps m of Inl err \<Rightarrow> Inl err | Inr m' \<Rightarrow> Inr (m'\<lparr>state := e\<rparr>))"
  by (simp add: dispatch_def)

lemma stale_start:
  assumes "stale_eq m1 m2" "state m1 = ''mouseup'' \<or> state m1 = ''mouseout''"
  shows "stale_eq_outcome (dispatch opts e ps m1) (dispatch opts e ps m2)"
proof (cases "e = ''start''")
  case False
  then have "handler_at opts (state m1) e = None" "handler_at opts (state m2) e = None"
    using assms by (auto simp: handler_at_simps stale_eq_def)
  then show ?thesis using assms(1)
    by (simp add: dispatch_unregistered stale_eq_outcome_def)
next
  case True
  then have "handler_at opts (state m1) e = Some start" "handler_at opts (state m2) e = Some start"
    using assms by (auto simp: handler_at_simps stale_eq_def)
  then show ?thesis using assms True
    by (cases ps) (auto simp: dispatch_registered stale_eq_outcome_def start_def stale_eq_def emit_def)
qed



lemma stale_eq_refl: "stale_eq m m"
  by (simp add: stale_eq_def)

lemma stale_eq_outcome_refl: "stale_eq_outcome out out"
  by (auto simp: stale_eq_outcome_def stale_eq_refl split: sum.splits)

lemma stale_eq_full:
  assumes "stale_eq m1 m2" "state m1 \<noteq> ''mouseup''" "state m1 \<noteq> ''mouseout''"
    "state m1 \<noteq> ''start''" "state m1 \<noteq> ''mousedown''"
  shows "m1 = m2"
  using assms by (intro circle_select.equality) (auto simp: stale_eq_def)

lemma stale_in_start:
  assumes "stale_eq m1 m2" "state m1 = ''start''"
  shows "stale_eq_outcome (dispatch opts e ps m1) (dispatch opts e ps m2)"
proof (cases "e = ''mousedown''")
  case False
  have s2: "state m2 = state m1" using assms by (simp add: stale_eq_def)
  from False have "handler_at opts (state m1) e = None" "handler_at opts (state m2) e = None"
    by (simp_all add: s2 assms(2) handler_at_simps)
  then show ?thesis using assms(1)
    by (simp add: dispatch_unregistered stale_eq_outcome_def)
next
  case True
  have s2: "state m2 = state m1" using assms by (simp add: stale_eq_def)
  from True have "handler_at opts (state m1) e = Some mousedown" "handler_at opts (state m2) e = Some mousedown"
    by (simp_all add: s2 assms(2) handler_at_simps)
  then show ?thesis using assms True
    by (cases ps) (auto simp: dispatch_registered stale_eq_outcome_def mousedown_def stale_eq_def)
qed

lemma stale_in_mousedown:
  assumes "stale_eq m1 m2" "state m1 = ''mousedown''"
  shows "stale_eq_outcome (dispatch opts e ps m1) (dispatch opts e ps m2)"
proof (cases "e = ''mousemove''")
  case False
  have s2: "state m2 = state m1" using assms by (simp add: stale_eq_def)
  from False have "handler_at opts (state m1) e = None" "handler_at opts (state m2) e = None"
    by (simp_all add: s2 assms(2) handler_at_simps)
  then show ?thesis using assms(1)
    by (simp add: dispatch_unregistered stale_eq_outcome_def)
next
  case True
  have s2: "state m2 = state m1" using assms by (simp add: stale_eq_def)
  from True have "handler_at opts (state m1) e = Some mousemove" "handler_at opts (state m2) e = Some mousemove"
    by (simp_all add: s2 assms(2) handler_at_simps)
  then show ?thesis using assms True
    by (cases ps) (auto simp: dispatch_registered stale_eq_outcome_def mousemove_def stale_eq_def emit_def)
qed

lemma stale_step:
  assumes "stale_eq m1 m2"
  shows "stale_eq_outcome (dispatch opts e ps m1) (dispatch opts e ps m2)"
proof -
  consider "state m1 = ''mouseup'' \<or> state m1 = ''mouseout''" | "state m1 = ''start''"
    | "state m1 = ''mousedown''"
    | "state m1 \<noteq> ''mouseup''" "state m1 \<noteq> ''mouseout''" "state m1 \<noteq> ''start''"
      "state m1 \<noteq> ''mousedown''"
    by blast
  then show ?thesis
  proof cases
    case 1
    with assms show ?thesis by (rule stale_start)
  next
    case 2
    with assms show ?thesis by (rule stale_in_start)
  next
    case 3
    with assms show ?thesis by (rule stale_in_mousedown)
  next
    case 4
    with assms have "m1 = m2" by (rule stale_eq_full)
    then show ?thesis by (simp add: stale_eq_outcome_refl)
  qed
qed

lemma stale_run:
  "stale_eq m1 m2 \<Longrightarrow> stale_eq_outcome (run opts es m1) (run opts es m2)"
proof (induction es arbitrary: m1 m2)
  case Nil
  then show ?case by (simp add: stale_eq_outcome_def)
next
  case (Cons ev es)
  obtain e ps where ev: "ev = (e, ps)" by (cases ev)
  have step: "stale_eq_outcome (dispatch opts e ps m1) (dispatch opts e ps m2)"
    using Cons.prems by (rule stale_step)
  show ?case
  proof (cases "dispatch opts e ps m1")
    case (Inl err1)
    then show ?thesis using step ev
      by (auto simp: stale_eq_outcome_def split: sum.splits prod.splits)
  next
    case (Inr a)
    then obtain b where b: "dispatch opts e ps m2 = Inr b" "stale_eq a b"
      using step by (auto simp: stale_eq_outcome_def split: sum.splits prod.splits)
    then show ?thesis using Inr ev Cons.IH [of a b] by simp
  qed
qed



lemma settled_simps [simp]: "settled (Inl (err, m)) = m" "settled (Inr m) = m"
  by (simp_all add: settled_def)

lemma mode_calls_append: "mode_calls (xs @ ys) = mode_calls xs @ mode_calls ys"
  by (simp add: mode_calls_def)

lemma current_mode_append:
  "current_mode (xs @ ys) = (if mode_calls ys = [] then current_mode xs else current_mode ys)"
  by (simp add: current_mode_def mode_calls_append)

lemma mode_calls_single:
  "mode_calls [c] = (case c of SetMode md \<Rightarrow> [md] | _ \<Rightarrow> [])"
  by (simp add: mode_calls_def)

lemma current_mode_emit:
  "current_mode (calls (view (emit c m))) =
     (case c of SetMode md \<Rightarrow> Some md | _ \<Rightarrow> current_mode (calls (view m)))"
  by (cases c) (simp_all add: emit_def current_mode_append mode_calls_single, simp_all add: current_mode_def mode_calls_def)

lemma state_emit [simp]: "state (emit c m) = state m"
  by (simp add: emit_def)

lemma start_keeps_state: "state (settled (start ps m)) = state m"
  by (cases ps) (simp_all add: start_def)

lemma mousedown_keeps_state: "state (settled (mousedown ps m)) = state m"
  by (cases ps) (simp_all add: mousedown_def)

lemma mousemove_keeps_state: "state (settled (mousemove ps m)) = state m"
  by (cases ps) (simp_all add: mousemove_def)

lemma state_clear_once [simp]: "state (clear_once m) = state m"
  by (simp add: clear_once_def Let_def)

lemma draw_keeps_state: "state (settled (draw opts ps m)) = state m"
  by (simp add: draw_def Let_def split: option.splits)

lemma state_notify_select [simp]: "state (notify_select m) = state m"
  by (simp add: notify_select_def split: option.splits jsvalue.splits)

lemma state_invoke_callback [simp]: "state (invoke_callback reg m) = state m"
  by (simp add: invoke_callback_def split: jsvalue.splits)

lemma mouseup_keeps_state: "state (settled (mouseup ps m)) = state m"
  by (simp add: mouseup_def Let_def split: option.splits)



lemma mode_after_start:
  "current_mode (calls (view (settled (start ps m)))) =
     (case ps of None \<Rightarrow> current_mode (calls (view m)) | Some p \<Rightarrow> Some SELECT)"
  by (cases ps) (simp_all add: start_def emit_def current_mode_append mode_calls_single,
      simp add: current_mode_def mode_calls_def)

lemma view_after_mousedown: "view (settled (mousedown ps m)) = view m"
  by (cases ps) (simp_all add: mousedown_def)

lemma mode_after_mousemove:
  "current_mode (calls (view (settled (mousemove ps m)))) = current_mode (calls (view m))"
  by (cases ps) (simp_all add: mousemove_def emit_def current_mode_append mode_calls_single)

lemma mode_after_clear_once:
  "current_mode (calls (view (clear_once m))) = current_mode (calls (view m))"
  by (simp add: clear_once_def Let_def emit_def current_mode_append mode_calls_single)

lemma mode_after_draw:
  "current_mode (calls (view (settled (draw opts ps m)))) = current_mode (calls (view m))"
  by (simp add: draw_def Let_def current_mode_emit mode_after_clear_once split: option.splits)

lemma mode_after_mouseup:
  "current_mode (calls (view (settled (mouseup ps m)))) =
     (case mouseup ps m of Inl err \<Rightarrow> current_mode (calls (view m)) | Inr m' \<Rightarrow> Some PAN)"
  by (simp add: mouseup_def Let_def current_mode_emit split: option.splits)

lemma settled_dispatch:
  "settled (dispatch opts e ps m) =
     (case handler_at opts (state m) e of
        None \<Rightarrow> m
      | Some h \<Rightarrow> (case h ps m of Inl err \<Rightarrow> snd err | Inr m' \<Rightarrow> m'\<lparr>state := e\<rparr>))"
  by (auto simp: dispatch_def settled_def split: option.splits sum.splits)

lemma state_cases:
  obtains "state m = ''start''" | "state m = ''mousedown''" | "state m = ''mousemove''"
  | "state m = ''draw''" | "state m = ''mouseout''" | "state m = ''mouseup''"
  | "state m \<noteq> ''start''" "state m \<noteq> ''mousedown''" "state m \<noteq> ''mousemove''"
    "state m \<noteq> ''draw''" "state m \<noteq> ''mouseout''" "state m \<noteq> ''mouseup''"
  by blast

lemma mode_step_start:
  assumes "mode_follows_state m"
  shows "mode_follows_state (settled (dispatch opts ''start'' ps m))"
proof (cases "state m = ''mouseup'' \<or> state m = ''mouseout''")
  case True
  then have h: "handler_at opts (state m) ''start'' = Some start"
    by (auto simp: handler_at_simps)
  show ?thesis
  proof (cases "start ps m")
    case (Inl err)
    then have "ps = None" "snd err = m" by (auto simp: start_def split: option.splits)
    then show ?thesis using assms h Inl by (simp add: settled_dispatch)
  next
    case (Inr m')
    then obtain p where "ps = Some p" by (auto simp: start_def split: option.splits)
    then have "current_mode (calls (view m')) = Some SELECT"
      using mode_after_start [of ps m] Inr by simp
    then show ?thesis using h Inr by (simp add: settled_dispatch mode_follows_state_def)
  qed
next
  case False
  then have "handler_at opts (state m) ''start'' = None"
    by (cases m rule: state_cases) (simp_all add: handler_at_simps handler_at_other)
  then show ?thesis using assms by (simp add: settled_dispatch)
qed



lemma settled_dispatch_registered:
  "handler_at opts (state m) e = Some h \<Longrightarrow>
   settled (dispatch opts e ps m) =
     (if isl (h ps m) then settled (h ps m) else (settled (h ps m))\<lparr>state := e\<rparr>)"
  by (auto simp: dispatch_def settled_def split: sum.splits)

lemma mode_via_mousedown:
  assumes "mode_follows_state m" and "state m = ''start''"
  shows "mode_follows_state (settled (dispatch opts ''mousedown'' ps m))"
proof -
  have h: "handler_at opts (state m) ''mousedown'' = Some mousedown"
    using assms(2) by (simp add: handler_at_simps)
  have "state (settled (mousedown ps m)) = ''start''"
    using assms(2) by (simp add: mousedown_keeps_state)
  then show ?thesis using assms
    by (simp add: settled_dispatch_registered [OF h] mode_follows_state_def view_after_mousedown)
qed

lemma mode_via_mousemove:
  assumes "mode_follows_state m" and "state m = ''mousedown'' \<or> state m = ''draw''"
  shows "mode_follows_state (settled (dispatch opts ''mousemove'' ps m))"
proof -
  have h: "handler_at opts (state m) ''mousemove'' = Some mousemove"
    using assms(2) by (auto simp: handler_at_simps)
  have "state (settled (mousemove ps m)) = state m"
    by (rule mousemove_keeps_state)
  then show ?thesis using assms
    by (auto simp: settled_dispatch_registered [OF h] mode_follows_state_def mode_after_mousemove)
qed

lemma mode_via_draw:
  assumes "mode_follows_state m" and "state m = ''mousemove''"
  shows "mode_follows_state (settled (dispatch opts ''draw'' ps m))"
proof -
  have h: "handler_at opts (state m) ''draw'' = Some (draw opts)"
    using assms(2) by (auto simp: handler_at_simps)
  have "state (settled (draw opts ps m)) = ''mousemove''"
    using assms(2) by (simp add: draw_keeps_state)
  then show ?thesis using assms
    by (auto simp: settled_dispatch_registered [OF h] mode_follows_state_def mode_after_draw)
qed

lemma mode_via_mouseup:
  assumes "mode_follows_state m" and "state m = ''mousemove'' \<or> state m = ''draw''"
    and "e = ''mouseup'' \<or> e = ''mouseout''"
  shows "mode_follows_state (settled (dispatch opts e ps m))"
proof -
  have h: "handler_at opts (state m) e = Some mouseup"
    using assms(2,3) by (auto simp: handler_at_simps mouseout_def)
  have st: "state (settled (mouseup ps m)) = state m"
    by (rule mouseup_keeps_state)
  have sel: "current_mode (calls (view m)) = Some SELECT"
    using assms(1,2) by (auto simp: mode_follows_state_def)
  show ?thesis
  proof (cases "mouseup ps m")
    case (Inl err)
    then have "current_mode (calls (view (settled (mouseup ps m)))) = Some SELECT"
      using sel mode_after_mouseup [of ps m] by simp
    then show ?thesis using Inl st assms(2)
      by (auto simp: settled_dispatch_registered [OF h] mode_follows_state_def)
  next
    case (Inr m')
    then have "current_mode (calls (view (settled (mouseup ps m)))) = Some PAN"
      using mode_after_mouseup [of ps m] by simp
    then show ?thesis using Inr assms(3)
      by (auto simp: settled_dispatch_registered [OF h] mode_follows_state_def)
  qed
qed

lemma mode_step:
  assumes inv: "mode_follows_state m"
  shows "mode_follows_state (settled (dispatch opts e ps m))"
proof (cases "handler_at opts (state m) e")
  case None
  then show ?thesis using inv by (simp add: settled_dispatch)
next
  case (Some h)
  show ?thesis
  proof (cases m rule: state_cases)
    case 1
    then have "e = ''mousedown''"
      using Some by (auto simp: handler_at_simps split: if_splits)
    then show ?thesis using inv 1 by (simp add: mode_via_mousedown)
  next
    case 2
    then have "e = ''mousemove''"
      using Some by (auto simp: handler_at_simps split: if_splits)
    then show ?thesis using inv 2 by (simp add: mode_via_mousemove)
  next
    case 3
    then consider "e = ''draw''" | "e = ''mouseup'' \<or> e = ''mouseout''"
      using Some by (auto simp: handler_at_simps split: if_splits)
    then show ?thesis
    proof cases
      case 1
      then show ?thesis using inv 3 by (simp add: mode_via_draw)
    next
      case 2
      then show ?thesis using inv 3 by (intro mode_via_mouseup) simp_all
    qed
  next
    case 4
    then consider "e = ''mousemove''" | "e = ''mouseup'' \<or> e = ''mouseout''"
      using Some by (auto simp: handler_at_simps split: if_splits)
    then show ?thesis
    proof cases
      case 1
      then show ?thesis using inv 4 by (simp add: mode_via_mousemove)
    next
      case 2
      then show ?thesis using inv 4 by (intro mode_via_mouseup) simp_all
    qed
  next
    case 5
    then have eh: "e = ''start''"
      using Some by (auto simp: handler_at_simps split: if_splits)
    show ?thesis using inv unfolding eh by (rule mode_step_start)
  next
    case 6
    then have eh: "e = ''start''"
      using Some by (auto simp: handler_at_simps split: if_splits)
    show ?thesis using inv unfolding eh by (rule mode_step_start)
  next
    case 7
    then show ?thesis using Some by (simp add: handler_at_other)
  qed
qed

lemma mode_run:
  "mode_follows_state m \<Longrightarrow> mode_follows_state (settled (run opts es m))"
proof (induction es arbitrary: m)
  case Nil
  then show ?case by simp
next
  case (Cons ev es)
  obtain e ps where ev: "ev = (e, ps)" by (cases ev)
  have step: "mode_follows_state (settled (dispatch opts e ps m))"
    using Cons.prems by (rule mode_step)
  show ?case
  proof (cases "dispatch opts e ps m")
    case (Inl err)
    then show ?thesis using step ev by (cases err) simp
  next
    case (Inr m')
    then show ?thesis using step ev Cons.IH [of m'] by simp
  qed
qed



lemma fields_emit [simp]:
  "startCoo (emit c m) = startCoo m" "coo (emit c m) = coo m" "callback (emit c m) = callback m"
  by (simp_all add: emit_def)

lemma fields_clear_once [simp]:
  "startCoo (clear_once m) = startCoo m" "coo (clear_once m) = coo m"
  "callback (clear_once m) = callback m"
  by (simp_all add: clear_once_def Let_def)

lemma fields_notify_select [simp]:
  "startCoo (notify_select m) = startCoo m" "coo (notify_select m) = coo m"
  "callback (notify_select m) = callback m"
  by (simp_all add: notify_select_def split: option.splits jsvalue.splits)

lemma fields_invoke_callback [simp]:
  "startCoo (invoke_callback reg m) = startCoo m" "coo (invoke_callback reg m) = coo m"
  "callback (invoke_callback reg m) = callback m"
  by (simp_all add: invoke_callback_def split: jsvalue.splits)

lemma draw_completes:
  assumes "startCoo m = Some s" and "coo m = Some c"
  shows "\<exists>m'. draw opts ps m = Inr m' \<and> startCoo m' = Some s \<and> coo m' = Some c"
  using assms by (simp add: draw_def Let_def)

lemma mouseup_completes_anchor:
  assumes "startCoo m = Some s" and "p_coo p = Some c"
  shows "\<exists>m'. mouseup (Some p) m = Inr m'"
  using assms by (simp add: mouseup_def Let_def)

lemma anchored_step:
  assumes "anchored m" and "wf_event (e, ps)"
  shows "\<exists>m'. dispatch opts e ps m = Inr m' \<and> anchored m'"
proof (cases "handler_at opts (state m) e")
  case None
  then show ?thesis using assms(1) by (simp add: dispatch_def)
next
  case (Some h)
  show ?thesis
  proof (cases m rule: state_cases)
    case 1
    then have eh: "e = ''mousedown''" "h = mousedown"
      using Some by (auto simp: handler_at_simps split: if_splits)
    then obtain p where "ps = Some p" "p_coo p \<noteq> None"
      using assms(2) by (auto simp: wf_event_def split: option.splits)
    then show ?thesis using Some eh
      by (simp add: dispatch_def mousedown_def anchored_def)
  next
    case 2
    then have eh: "e = ''mousemove''" "h = mousemove"
      using Some by (auto simp: handler_at_simps split: if_splits)
    then obtain p where "ps = Some p" "p_coo p \<noteq> None"
      using assms(2) by (auto simp: wf_event_def split: option.splits)
    then show ?thesis using Some eh assms(1) 2
      by (simp add: dispatch_def mousemove_def anchored_def)
  next
    case 3
    then obtain s c where sc: "startCoo m = Some s" "coo m = Some c"
      using assms(1) by (auto simp: anchored_def)
    from 3 consider "e = ''draw''" "h = draw opts" | "e = ''mouseup'' \<or> e = ''mouseout''" "h = mouseup"
      using Some by (auto simp: handler_at_simps mouseout_def split: if_splits)
    then show ?thesis
    proof cases
      case 1
      obtain m' where "draw opts ps m = Inr m'" "startCoo m' = Some s" "coo m' = Some c"
        using draw_completes [OF sc] by blast
      then show ?thesis using Some 1 by (simp add: dispatch_def anchored_def)
    next
      case 2
      then obtain p c' where p: "ps = Some p" "p_coo p = Some c'"
        using assms(2) by (auto simp: wf_event_def split: option.splits)
      obtain m' where "mouseup (Some p) m = Inr m'"
        using mouseup_completes_anchor [OF sc(1) p(2)] by blast
      then show ?thesis using Some 2 p by (auto simp: dispatch_def anchored_def)
    qed
  next
    case 4
    then obtain s c where sc: "startCoo m = Some s" "coo m = Some c"
      using assms(1) by (auto simp: anchored_def)
    from 4 consider "e = ''mousemove''" "h = mousemove"
      | "e = ''mouseup'' \<or> e = ''mouseout''" "h = mouseup"
      using Some by (auto simp: handler_at_simps mouseout_def split: if_splits)
    then show ?thesis
    proof cases
      case 1
      then obtain p where "ps = Some p" "p_coo p \<noteq> None"
        using assms(2) by (auto simp: wf_event_def split: option.splits)
      then show ?thesis using Some 1 sc
        by (simp add: dispatch_def mousemove_def anchored_def)
    next
      case 2
      then obtain p c' where p: "ps = Some p" "p_coo p = Some c'"
        using assms(2) by (auto simp: wf_event_def split: option.splits)
      obtain m' where "mouseup (Some p) m = Inr m'"
        using mouseup_completes_anchor [OF sc(1) p(2)] by blast
      then show ?thesis using Some 2 p by (auto simp: dispatch_def anchored_def)
    qed
  next
    case 5
    then have eh: "e = ''start''" "h = start"
      using Some by (auto simp: handler_at_simps split: if_splits)
    then obtain p where "ps = Some p"
      using assms(2) by (auto simp: wf_event_def split: option.splits)
    then show ?thesis using Some eh
      by (simp add: dispatch_def start_def anchored_def)
  next
    case 6
    then have eh: "e = ''start''" "h = start"
      using Some by (auto simp: handler_at_simps split: if_splits)
    then obtain p where "ps = Some p"
      using assms(2) by (auto simp: wf_event_def split: option.splits)
    then show ?thesis using Some eh
      by (simp add: dispatch_def start_def anchored_def)
  next
    case 7
    then show ?thesis using Some by (simp add: handler_at_other)
  qed
qed

lemma anchored_run:
  "anchored m \<Longrightarrow> list_all wf_event es \<Longrightarrow> \<exists>m'. run opts es m = Inr m' \<and> anchored m'"
proof (induction es arbitrary: m)
  case Nil
  then show ?case by simp
next
  case (Cons ev es)
  obtain e ps where ev: "ev = (e, ps)" by (cases ev)
  then have "wf_event (e, ps)" using Cons.prems(2) by simp
  then obtain m1 where m1: "dispatch opts e ps m = Inr m1" "anchored m1"
    using anchored_step [OF Cons.prems(1)] by blast
  have "list_all wf_event es" using Cons.prems(2) by simp
  then show ?case using Cons.IH [OF m1(2)] m1(1) ev by simp
qed



lemma delivered_callback_calls:
  "delivered (callback_calls k reg) = (if is_function k then [reg] else [])"
  by (cases k) (simp_all add: callback_calls_def delivered_def)

lemma delivered_select_calls: "delivered (select_calls m) = []"
  by (auto simp: select_calls_def delivered_def split: option.splits jsvalue.splits)

lemma mouseup_delivers:
  assumes "startCoo m = Some s" and "p_coo p = Some c" and "callback m = Function f"
  shows "\<exists>m'. mouseup (Some p) m = Inr m' \<and>
           delivered (calls (view m')) =
             delivered (calls (view m)) @
               [circle_region (coo_x s) (coo_y s) (sqrt (sqdist c s)) (sqdist c s)]"
  using assms
  by (simp add: mouseup_completes [OF assms(1,2)] delivered_append delivered_callback_calls
      delivered_select_calls delivered_simps)








lemma sqrt_25: "sqrt 25 = (5::real)"
proof -
  have "sqrt (5 * 5) = \<bar>5::real\<bar>" by (rule real_sqrt_abs2)
  then show ?thesis by simp
qed

lemma run_append:
  "run opts (xs @ ys) m = (case run opts xs m of Inl err \<Rightarrow> Inl err | Inr m' \<Rightarrow> run opts ys m')"
  by (induction xs arbitrary: m) (auto split: sum.splits)

lemma handler_at_mouseout: "handler_at opts s ''mouseout'' = handler_at opts s ''mouseup''"
proof (cases "s = ''mousemove'' \<or> s = ''draw''")
  case True
  then show ?thesis by (auto simp: handler_at_simps mouseout_def)
next
  case False
  then show ?thesis
    by (simp add: handler_at_def transitions_def)
qed

lemma idle_rows_equal: "handler_at opts ''mouseout'' e = handler_at opts ''mouseup'' e"
  by (simp add: handler_at_simps)

lemma before_mousedown_step:
  assumes "idle_or_started m" and "e \<noteq> ''mousedown''" and "dispatch opts e ps m = Inr m'"
  shows "idle_or_started m'"
proof (cases "handler_at opts (state m) e")
  case None
  then show ?thesis using assms by (simp add: dispatch_def)
next
  case (Some h)
  then have "m' = (settled (h ps m))\<lparr>state := e\<rparr>"
    using assms(3) by (auto simp: dispatch_def split: sum.splits)
  moreover have "e = ''start''"
    using Some assms(1,2) by (auto simp: idle_or_started_def handler_at_simps split: if_splits)
  ultimately show ?thesis by (simp add: idle_or_started_def)
qed

lemma before_mousedown_run:
  assumes "idle_or_started m" and "''mousedown'' \<notin> set (map fst es)" and "run opts es m = Inr m'"
  shows "idle_or_started m'"
  using assms
proof (induction es arbitrary: m)
  case Nil
  then show ?case by simp
next
  case (Cons ev es)
  obtain e ps where ev: "ev = (e, ps)" by (cases ev)
  then obtain m1 where m1: "dispatch opts e ps m = Inr m1" "run opts es m1 = Inr m'"
    using Cons.prems(3) by (auto split: sum.splits)
  have "e \<noteq> ''mousedown''" using Cons.prems(2) ev by auto
  then have "idle_or_started m1" using Cons.prems(1) m1(1) before_mousedown_step by blast
  then show ?case using Cons.IH [of m1] Cons.prems(2) m1(2) by simp
qed

lemma draw_ignored_before_mousedown:
  assumes "idle_or_started m"
  shows "dispatch opts ''draw'' ps m = Inr m"
  using assms by (auto simp: idle_or_started_def dispatch_def handler_at_simps)

lemma observe_stale_eq:
  "stale_eq_outcome o1 o2 \<Longrightarrow> observe o1 = observe o2"
  by (auto simp: stale_eq_outcome_def observe_def stale_eq_def split: sum.splits prod.splits)

lemma stale_idle:
  assumes "state m = ''mouseup'' \<or> state m = ''mouseout''"
  shows "stale_eq (m\<lparr>callback := k, startCoo := a, coo := c\<rparr>) m"
  using assms by (auto simp: stale_eq_def)

lemma mode_after_accepted_start:
  assumes "state m = ''mouseup'' \<or> state m = ''mouseout''"
  shows "\<exists>m1. dispatch opts ''start'' (Some p) m = Inr m1 \<and> mode_follows_state m1"
proof -
  have h: "handler_at opts (state m) ''start'' = Some start"
    using assms by (auto simp: handler_at_simps)
  obtain m0 where m0: "start (Some p) m = Inr m0" by (simp add: start_def)
  have "current_mode (calls (view m0)) = Some SELECT"
    using mode_after_start [of "Some p" m] m0 by simp
  then have "mode_follows_state (m0\<lparr>state := ''start''\<rparr>)"
    by (simp add: mode_follows_state_def)
  moreover have "dispatch opts ''start'' (Some p) m = Inr (m0\<lparr>state := ''start''\<rparr>)"
    using h m0 by (simp add: dispatch_def)
  ultimately show ?thesis by blast
qed

lemma handler_at_key:
  assumes "handler_at opts s e = Some h"
  shows "e \<in> set (map fst (transitions opts))"
  using assms by (auto simp: handler_at_def transitions_def split: if_splits)

lemma handler_at_range:
  assumes "handler_at opts s e = Some h"
  shows "h = start \<or> h = mousedown \<or> h = mousemove \<or> h = draw opts \<or> h = mouseup"
  using assms by (auto simp: handler_at_def transitions_def mouseout_def split: if_splits)

lemma handler_keeps_state:
  assumes "handler_at opts s e = Some h"
  shows "state (settled (h ps m)) = state m"
  using handler_at_range [OF assms]
  by (auto simp: start_keeps_state mousedown_keeps_state mousemove_keeps_state
      draw_keeps_state mouseup_keeps_state)

lemma key_step:
  assumes "state m \<in> set (map fst (transitions opts))"
  shows "state (settled (dispatch opts e ps m)) \<in> set (map fst (transitions opts))"
proof (cases "handler_at opts (state m) e")
  case None
  then show ?thesis using assms by (simp add: settled_dispatch)
next
  case (Some h)
  have "state (settled (h ps m)) = state m" using Some by (rule handler_keeps_state)
  moreover have "e \<in> set (map fst (transitions opts))" using Some by (rule handler_at_key)
  ultimately show ?thesis using assms
    by (simp add: settled_dispatch_registered [OF Some])
qed

lemma key_run:
  "state m \<in> set (map fst (transitions opts)) \<Longrightarrow>
   state (settled (run opts es m)) \<in> set (map fst (transitions opts))"
proof (induction es arbitrary: m)
  case Nil
  then show ?case by simp
next
  case (Cons ev es)
  obtain e ps where ev: "ev = (e, ps)" by (cases ev)
  have step: "state (settled (dispatch opts e ps m)) \<in> set (map fst (transitions opts))"
    using Cons.prems by (rule key_step)
  show ?case
  proof (cases "dispatch opts e ps m")
    case (Inl err)
    then show ?thesis using step ev by (cases err) simp
  next
    case (Inr m')
    then show ?thesis using step ev Cons.IH [of m'] by simp
  qed
qed

lemma finalizer_states:
  assumes "handler_at opts s ''draw'' \<noteq> None \<or> handler_at opts s ''mouseup'' \<noteq> None \<or>
     handler_at opts s ''mouseout'' \<noteq> None"
  shows "s = ''mousemove'' \<or> s = ''draw''"
  using assms by (auto simp: handler_at_def transitions_def split: if_splits)

section \<open>Rounding\<close>

lemma round_half_even_near:
  assumes "of_int n - 1 / 2 < x" and "x < of_int n + 1 / 2"
  shows "round_half_even x = n"
proof -
  have "\<lfloor>x\<rfloor> = n \<or> \<lfloor>x\<rfloor> = n - 1" using assms by linarith
  then show ?thesis
  proof
    assume f: "\<lfloor>x\<rfloor> = n"
    then have "x - of_int \<lfloor>x\<rfloor> < 1 / 2" using assms by simp
    then show ?thesis using f by (simp add: round_half_even_def Let_def)
  next
    assume f: "\<lfloor>x\<rfloor> = n - 1"
    then have "1 / 2 < x - of_int \<lfloor>x\<rfloor>" using assms by simp
    then show ?thesis using f by (simp add: round_half_even_def Let_def)
  qed
qed

lemma round_half_even_int: "round_half_even (of_int n) = n"
  by (rule round_half_even_near) simp_all

lemma round_half_even_tie:
  assumes "x = of_int n + 1 / 2"
  shows "round_half_even x = (if even n then n else n + 1)"
proof -
  have "\<lfloor>x\<rfloor> = n" using assms by linarith
  then show ?thesis using assms by (simp add: round_half_even_def Let_def)
qed

lemma floor_log2:
  assumes "2 powi k \<le> x" and "x < 2 powi (k + 1)"
  shows "\<lfloor>log 2 x\<rfloor> = k"
proof -
  have "(0::real) < 2 powi k" by (rule zero_less_power_int) simp
  then have pos: "0 < x" using assms(1) by linarith
  have a: "(2::real) powr (of_int k) = 2 powi k"
    using powr_real_of_int' [of 2 k] by simp
  have b: "(2::real) powr (of_int (k + 1)) = 2 powi (k + 1)"
    using powr_real_of_int' [of 2 "k + 1"] by simp
  have "2 powr (of_int k) \<le> x \<and> x < 2 powr (of_int (k + 1))"
    unfolding a b using assms by simp
  then show ?thesis using pos floor_log_eq_powr_iff [of x 2 k] by simp
qed

lemma round_double_eval:
  assumes "2 powi k \<le> \<bar>x\<bar>" and "\<bar>x\<bar> < 2 powi (k + 1)" and "- 1022 \<le> k"
    and "round_half_even (x / 2 powi (k - 52)) = n"
    and "\<bar>of_int n * 2 powi (k - 52)\<bar> < (2::real) ^ 1024"
  shows "round_double x = Finite (of_int n * 2 powi (k - 52))"
proof -
  have "(0::real) < 2 powi k" by (rule zero_less_power_int) simp
  then have "0 < \<bar>x\<bar>" using assms(1) by linarith
  then have nz: "x \<noteq> 0" by simp
  have "\<lfloor>log 2 \<bar>x\<bar>\<rfloor> = k" using assms(1,2) by (rule floor_log2)
  then have "max \<lfloor>log 2 \<bar>x\<bar>\<rfloor> (- 1022) = k" using assms(3) by simp
  then show ?thesis using nz assms(4,5)
    by (simp add: round_double_def Let_def)
qed

lemma round_double_zero: "round_double 0 = Finite 0"
  by (simp add: round_double_def)

lemma round_double_exact:
  assumes "2 powi k \<le> \<bar>x\<bar>" and "\<bar>x\<bar> < 2 powi (k + 1)" and "- 1022 \<le> k" and "k \<le> 1023"
    and "x / 2 powi (k - 52) = of_int n"
  shows "round_double x = Finite x"
proof -
  have u: "(0::real) < 2 powi (k - 52)" by (rule zero_less_power_int) simp
  have r: "round_half_even (x / 2 powi (k - 52)) = n"
    unfolding assms(5) by (rule round_half_even_int)
  have x: "of_int n * 2 powi (k - 52) = x"
    using assms(5) u by (simp add: field_simps)
  have "(2::real) powi (k + 1) \<le> 2 powi 1024"
    using assms(4) by (intro power_int_increasing) simp_all
  then have "\<bar>x\<bar> < (2::real) ^ 1024" using assms(2) by simp
  then have "\<bar>of_int n * 2 powi (k - 52)\<bar> < (2::real) ^ 1024" using x by simp
  then have "round_double x = Finite (of_int n * 2 powi (k - 52))"
    using assms(1,2,3) r by (intro round_double_eval)
  then show ?thesis using x by simp
qed

lemma round_double_of_int:
  assumes "\<bar>i\<bar> < 2 ^ 53"
  shows "round_double (of_int i) = Finite (of_int i)"
proof (cases "i = 0")
  case True
  then show ?thesis by (simp add: round_double_zero)
next
  case False
  define x :: real where "x = \<bar>of_int i\<bar>"
  have x1: "1 \<le> x" using False by (simp add: x_def)
  define k where "k = \<lfloor>log 2 x\<rfloor>"
  have kb: "2 powr (of_int k) \<le> x \<and> x < 2 powr (of_int (k + 1))"
    using x1 floor_log_eq_powr_iff [of x 2 k] by (simp add: k_def)
  have a: "(2::real) powr (of_int k) = 2 powi k"
    using powr_real_of_int' [of 2 k] by simp
  have b: "(2::real) powr (of_int (k + 1)) = 2 powi (k + 1)"
    using powr_real_of_int' [of 2 "k + 1"] by simp
  have lo: "2 powi k \<le> x" and hi: "x < 2 powi (k + 1)"
    using kb unfolding a b by simp_all
  have k0: "0 \<le> k"
    using x1 by (simp add: k_def)
  have "x < 2 ^ 53" using assms by (simp add: x_def)
  then have "(2::real) powi k < 2 powi 53" using lo by simp
  then have k52: "k < 53" by (rule power_int_le_imp_less_exp [rotated]) simp_all
  define j where "j = nat (52 - k)"
  have j: "52 - k = int j" using k52 by (simp add: j_def)
  have "k - 52 = - int j" using j by linarith
  then have "(2::real) powi (k - 52) = 2 powi (- int j)" by simp
  also have "\<dots> = 1 / 2 ^ j" by (simp add: power_int_minus field_simps)
  finally have u: "(2::real) powi (k - 52) = 1 / 2 ^ j" .
  have q: "of_int i / (2::real) powi (k - 52) = of_int (i * 2 ^ j)"
    unfolding u by simp
  show ?thesis
    using lo hi k0 k52 q unfolding x_def
    by (intro round_double_exact [where k = k and n = "i * 2 ^ j"]) simp_all
qed

lemma js_int_ops:
  "\<bar>i - j\<bar> < 2 ^ 53 \<Longrightarrow> js_sub (Finite (of_int i)) (Finite (of_int j)) = Finite (of_int (i - j))"
  "\<bar>i + j\<bar> < 2 ^ 53 \<Longrightarrow> js_add (Finite (of_int i)) (Finite (of_int j)) = Finite (of_int (i + j))"
  "\<bar>i * j\<bar> < 2 ^ 53 \<Longrightarrow> js_mul (Finite (of_int i)) (Finite (of_int j)) = Finite (of_int (i * j))"
  using round_double_of_int [of "i - j"] round_double_of_int [of "i + j"]
    round_double_of_int [of "i * j"]
  by (simp_all add: js_sub_def js_add_def js_neg_def js_mul_def)

lemma abs_le_square:
  fixes t :: int
  shows "\<bar>t\<bar> \<le> t * t"
proof (cases "t = 0")
  case True
  then show ?thesis by simp
next
  case False
  then have "1 \<le> \<bar>t\<bar>" by simp
  then have "\<bar>t\<bar> * 1 \<le> \<bar>t\<bar> * \<bar>t\<bar>" by (intro mult_left_mono) simp_all
  then show ?thesis by simp
qed

lemma sqdist_double_int:
  assumes "\<bar>(a - c) * (a - c) + (b - d) * (b - d)\<bar> < 2 ^ 53"
  shows "sqdist_double \<lparr>js_x = Finite (of_int a), js_y = Finite (of_int b)\<rparr>
           \<lparr>js_x = Finite (of_int c), js_y = Finite (of_int d)\<rparr> =
         Finite (of_int ((a - c) * (a - c) + (b - d) * (b - d)))"
proof -
  have sq: "0 \<le> (a - c) * (a - c)" "0 \<le> (b - d) * (b - d)" by simp_all
  have m1: "\<bar>(a - c) * (a - c)\<bar> < 2 ^ 53" and m2: "\<bar>(b - d) * (b - d)\<bar> < 2 ^ 53"
    using assms sq by linarith+
  have l1: "\<bar>a - c\<bar> < 2 ^ 53" using m1 abs_le_square [of "a - c"] by simp
  have l2: "\<bar>b - d\<bar> < 2 ^ 53" using m2 abs_le_square [of "b - d"] by simp
  have s1: "js_sub (Finite (of_int a)) (Finite (of_int c)) = Finite (of_int (a - c))"
    using l1 by (rule js_int_ops(1))
  have s2: "js_sub (Finite (of_int b)) (Finite (of_int d)) = Finite (of_int (b - d))"
    using l2 by (rule js_int_ops(1))
  have p1: "js_mul (Finite (of_int (a - c))) (Finite (of_int (a - c))) =
      Finite (of_int ((a - c) * (a - c)))"
    using m1 by (rule js_int_ops(3))
  have p2: "js_mul (Finite (of_int (b - d))) (Finite (of_int (b - d))) =
      Finite (of_int ((b - d) * (b - d)))"
    using m2 by (rule js_int_ops(3))
  have a1: "js_add (Finite (of_int ((a - c) * (a - c)))) (Finite (of_int ((b - d) * (b - d)))) =
      Finite (of_int ((a - c) * (a - c) + (b - d) * (b - d)))"
    using assms by (rule js_int_ops(2))
  show ?thesis
    by (simp only: sqdist_double_def coord_double.simps s1 s2 p1 p2 a1)
qed

lemma sqrt_2_scaled:
  "6369051672525773 - 1 / 2 < sqrt 2 * 2 ^ 52" "sqrt 2 * 2 ^ 52 < 6369051672525773 + 1 / 2"
proof -
  have "sqrt 2 * t = sqrt (2 * t\<^sup>2)" if "0 \<le> t" for t :: real
    using that by (simp add: real_sqrt_mult)
  from this [of "2 ^ 52"] have e: "sqrt 2 * 2 ^ 52 = sqrt (2 * (2 ^ 52)\<^sup>2)"
    by simp
  have "(6369051672525773 - 1 / 2)\<^sup>2 < (2 * (2 ^ 52)\<^sup>2 :: real)"
    by (simp add: power2_eq_square)
  then show "6369051672525773 - 1 / 2 < sqrt 2 * 2 ^ 52"
    unfolding e by (rule real_less_rsqrt)
  have "(2 * (2 ^ 52)\<^sup>2 :: real) < (6369051672525773 + 1 / 2)\<^sup>2"
    by (simp add: power2_eq_square)
  then show "sqrt 2 * 2 ^ 52 < 6369051672525773 + 1 / 2"
    unfolding e by (intro real_less_lsqrt) simp_all
qed

lemma sqrt_2_bounds: "1 \<le> sqrt 2" "sqrt 2 < 2"
proof -
  show "1 \<le> sqrt 2" by simp
  show "sqrt 2 < 2" by (intro real_less_lsqrt) simp_all
qed

lemma js_sqrt_2: "js_sqrt (Finite 2) = Finite (6369051672525773 / 2 ^ 52)"
proof -
  have n: "round_half_even (sqrt 2 / 2 powi (0 - 52)) = 6369051672525773"
    using sqrt_2_scaled by (intro round_half_even_near) (simp_all add: power_int_minus)
  have "round_double (sqrt 2) = Finite (of_int 6369051672525773 * 2 powi (0 - 52))"
    using sqrt_2_bounds n by (intro round_double_eval) (simp_all add: power_int_minus)
  then show ?thesis by (simp add: js_sqrt_def power_int_minus)
qed

lemma round_double_root: "round_double (6369051672525773 / 2 ^ 52) = Finite (6369051672525773 / 2 ^ 52)"
  by (rule round_double_exact [where k = 0 and n = 6369051672525773])
    (simp_all add: power_int_minus)

lemma root_squared:
  "js_mul (Finite (6369051672525773 / 2 ^ 52)) (Finite (6369051672525773 / 2 ^ 52)) =
     Finite (2 + 1 / 2 ^ 51)"
proof -
  have n: "round_half_even (6369051672525773 / 2 ^ 52 * (6369051672525773 / 2 ^ 52) / 2 powi (1 - 52))
      = 2 ^ 52 + 1"
    by (intro round_half_even_near) (simp_all add: power_int_minus)
  have "round_double (6369051672525773 / 2 ^ 52 * (6369051672525773 / 2 ^ 52)) =
      Finite (of_int (2 ^ 52 + 1) * 2 powi (1 - 52))"
    using n by (intro round_double_eval) (simp_all add: power_int_minus)
  then show ?thesis by (simp add: js_mul_def power_int_minus)
qed

lemma round_double_above_2: "round_double (2 + 1 / 2 ^ 51) = Finite (2 + 1 / 2 ^ 51)"
  by (rule round_double_exact [where k = 1 and n = "2 ^ 52 + 1"])
    (simp_all add: power_int_minus)

lemma round_half_even_nonneg:
  assumes "0 \<le> x"
  shows "0 \<le> round_half_even x"
proof -
  have "0 \<le> \<lfloor>x\<rfloor>" using assms by simp
  then show ?thesis by (simp add: round_half_even_def Let_def)
qed

lemma round_double_nonneg:
  assumes "0 \<le> x"
  shows "nonneg_number (round_double x)"
proof (cases "x = 0")
  case True
  then show ?thesis by (simp add: round_double_def nonneg_number_def)
next
  case False
  define u :: real where "u = 2 powi (max \<lfloor>log 2 \<bar>x\<bar>\<rfloor> (- 1022) - 52)"
  have u: "0 < u" unfolding u_def by (rule zero_less_power_int) simp
  then have "0 \<le> x / u" using assms by simp
  then have "0 \<le> round_half_even (x / u)" by (rule round_half_even_nonneg)
  then have "0 \<le> of_int (round_half_even (x / u)) * u" using u by simp
  then show ?thesis using False assms
    by (simp add: round_double_def Let_def nonneg_number_def u_def)
qed

lemma round_double_not_NaN: "round_double x \<noteq> NaN"
  by (simp add: round_double_def Let_def)

lemma js_sub_finite: "js_sub (Finite x) (Finite y) \<noteq> NaN"
  by (simp add: js_sub_def js_add_def js_neg_def round_double_not_NaN)

lemma js_mul_self_nonneg:
  assumes "a \<noteq> NaN"
  shows "nonneg_number (js_mul a a)"
proof (cases a)
  case (Finite x)
  then show ?thesis using round_double_nonneg [of "x * x"] by (simp add: js_mul_def)
qed (use assms in \<open>simp_all add: js_mul_def nonneg_number_def\<close>)

lemma js_add_nonneg:
  assumes "nonneg_number a" and "nonneg_number b"
  shows "nonneg_number (js_add a b)"
proof (cases a)
  case fa: (Finite x)
  show ?thesis
  proof (cases b)
    case (Finite y)
    then show ?thesis using assms fa round_double_nonneg [of "x + y"]
      by (simp add: js_add_def nonneg_number_def)
  qed (use assms fa in \<open>simp_all add: js_add_def nonneg_number_def\<close>)
next
  case PosInf
  then show ?thesis using assms by (cases b) (simp_all add: js_add_def nonneg_number_def)
qed (use assms in \<open>simp_all add: nonneg_number_def\<close>)

lemma js_le_zero_nonneg: "nonneg_number a \<Longrightarrow> js_le (Finite 0) a"
  by (cases a) (simp_all add: nonneg_number_def js_le_def)

lemma js_le_refl: "nonneg_number a \<Longrightarrow> js_le a a"
  by (cases a) (simp_all add: nonneg_number_def js_le_def)

lemma sqdist_double_nonneg:
  assumes "js_x s = Finite sx" and "js_y s = Finite sy"
    and "js_x c = Finite cx" and "js_y c = Finite cy"
  shows "nonneg_number (sqdist_double c s)"
  unfolding sqdist_double_def assms
  by (intro js_add_nonneg js_mul_self_nonneg js_sub_finite)

lemma sqdist_double_self:
  assumes "js_x s = Finite sx" and "js_y s = Finite sy"
  shows "sqdist_double s s = Finite 0"
  by (simp add: sqdist_double_def assms js_sub_def js_neg_def js_add_def js_mul_def round_double_zero)

lemma contains_double_iff:
  "contains_double (circle_region_double s c) q = js_le (sqdist_double q s) (sqdist_double c s)"
  by (simp add: contains_double_def circle_region_double_def Let_def sqdist_double_def)

lemma contains_double_anchor_release:
  assumes "js_x s = Finite sx" and "js_y s = Finite sy"
    and "js_x c = Finite cx" and "js_y c = Finite cy"
  shows "contains_double (circle_region_double s c) s"
    and "contains_double (circle_region_double s c) c"
proof -
  have nn: "nonneg_number (sqdist_double c s)" using assms by (rule sqdist_double_nonneg)
  show "contains_double (circle_region_double s c) s"
    using nn by (simp add: contains_double_iff sqdist_double_self [OF assms(1,2)] js_le_zero_nonneg)
  show "contains_double (circle_region_double s c) c"
    using nn by (simp add: contains_double_iff js_le_refl)
qed

lemma js_sqrt_square:
  fixes k :: int
  assumes "0 \<le> k" and "k < 2 ^ 53"
  shows "js_sqrt (Finite (of_int (k * k))) = Finite (of_int k)"
proof -
  have "sqrt (of_int (k * k)) = \<bar>of_int k\<bar>" by simp
  then have "sqrt (of_int (k * k)) = of_int k" using assms(1) by simp
  moreover have "round_double (of_int k) = Finite (of_int k)"
    using assms by (intro round_double_of_int) simp
  ultimately show ?thesis using assms(1) by (simp add: js_sqrt_def)
qed

lemma small_root:
  fixes k :: int
  assumes "0 \<le> k" and "k * k < 2 ^ 53"
  shows "k < 2 ^ 27"
proof (rule ccontr)
  assume "\<not> k < 2 ^ 27"
  then have "2 ^ 27 \<le> k" by simp
  then have "(2 ^ 27) * (2 ^ 27) \<le> k * k" by (intro mult_mono) simp_all
  then show False using assms(2) by simp
qed

lemma integer_circle:
  fixes a b c d k :: int
  assumes "0 \<le> k" and "(c - a) * (c - a) + (d - b) * (d - b) = k * k" and "k * k < 2 ^ 53"
  shows "sqdist_double \<lparr>js_x = Finite (of_int c), js_y = Finite (of_int d)\<rparr>
           \<lparr>js_x = Finite (of_int a), js_y = Finite (of_int b)\<rparr> = Finite (of_int (k * k))"
    and "dreg_r (circle_region_double \<lparr>js_x = Finite (of_int a), js_y = Finite (of_int b)\<rparr>
           \<lparr>js_x = Finite (of_int c), js_y = Finite (of_int d)\<rparr>) = Finite (of_int k)"
proof -
  have "\<bar>(c - a) * (c - a) + (d - b) * (d - b)\<bar> < 2 ^ 53"
    using assms by simp
  then show r2: "sqdist_double \<lparr>js_x = Finite (of_int c), js_y = Finite (of_int d)\<rparr>
           \<lparr>js_x = Finite (of_int a), js_y = Finite (of_int b)\<rparr> = Finite (of_int (k * k))"
    using sqdist_double_int [of c a d b] assms(2) by simp
  have "k < 2 ^ 27" using assms(1,3) by (rule small_root)
  then have "k < 2 ^ 53" by simp
  then have "js_sqrt (Finite (of_int (k * k))) = Finite (of_int k)"
    using assms(1) by (intro js_sqrt_square)
  then show "dreg_r (circle_region_double \<lparr>js_x = Finite (of_int a), js_y = Finite (of_int b)\<rparr>
           \<lparr>js_x = Finite (of_int c), js_y = Finite (of_int d)\<rparr>) = Finite (of_int k)"
    by (simp only: circle_region_double_def Let_def r2 region_double.simps)
qed

lemma integer_point:
  fixes a b c d k p q :: int
  assumes "0 \<le> k" and "(c - a) * (c - a) + (d - b) * (d - b) = k * k" and "k * k < 2 ^ 53"
    and "(p - a) * (p - a) + (q - b) * (q - b) < 2 ^ 53"
  shows "contains_double
           (circle_region_double \<lparr>js_x = Finite (of_int a), js_y = Finite (of_int b)\<rparr>
              \<lparr>js_x = Finite (of_int c), js_y = Finite (of_int d)\<rparr>)
           \<lparr>js_x = Finite (of_int p), js_y = Finite (of_int q)\<rparr> =
         ((p - a) * (p - a) + (q - b) * (q - b) \<le> k * k)"
proof -
  have "0 \<le> (p - a) * (p - a) + (q - b) * (q - b)" by simp
  then have "\<bar>(p - a) * (p - a) + (q - b) * (q - b)\<bar> < 2 ^ 53" using assms(4) by linarith
  then have d: "sqdist_double \<lparr>js_x = Finite (of_int p), js_y = Finite (of_int q)\<rparr>
           \<lparr>js_x = Finite (of_int a), js_y = Finite (of_int b)\<rparr> =
         Finite (of_int ((p - a) * (p - a) + (q - b) * (q - b)))"
    by (rule sqdist_double_int)
  have r2: "sqdist_double \<lparr>js_x = Finite (of_int c), js_y = Finite (of_int d)\<rparr>
           \<lparr>js_x = Finite (of_int a), js_y = Finite (of_int b)\<rparr> = Finite (of_int (k * k))"
    using assms(1,2,3) by (rule integer_circle)
  have "js_le (Finite (of_int ((p - a) * (p - a) + (q - b) * (q - b)))) (Finite (of_int (k * k))) =
      ((p - a) * (p - a) + (q - b) * (q - b) \<le> k * k)"
    unfolding js_le_def by (simp only: number.case of_int_le_iff)
  then show ?thesis by (simp only: contains_double_iff d r2)
qed

lemma unit_diagonal:
  "sqdist_double \<lparr>js_x = Finite 1, js_y = Finite 1\<rparr> \<lparr>js_x = Finite 0, js_y = Finite 0\<rparr> = Finite 2"
  using sqdist_double_int [of 1 0 1 0] by simp

lemma unit_diagonal_radius:
  "dreg_r (circle_region_double \<lparr>js_x = Finite 0, js_y = Finite 0\<rparr> \<lparr>js_x = Finite 1, js_y = Finite 1\<rparr>)
     = Finite (6369051672525773 / 2 ^ 52)"
  by (simp only: circle_region_double_def Let_def unit_diagonal js_sqrt_2 region_double.simps)

lemma js_zero_ops:
  "js_sub (Finite 0) (Finite 0) = Finite 0" "js_mul (Finite 0) (Finite 0) = Finite 0"
  "js_sub (Finite x) (Finite 0) = round_double x" "js_add (Finite x) (Finite 0) = round_double x"
  "js_add (Finite 0) (Finite x) = round_double x"
  by (simp_all add: js_sub_def js_add_def js_neg_def js_mul_def round_double_zero)

lemma round_double_neg: "round_double (- x) = js_neg (round_double x)"
proof (cases "x = 0")
  case True
  then show ?thesis by (simp add: round_double_def js_neg_def)
next
  case False
  define u :: real where "u = 2 powi (max \<lfloor>log 2 \<bar>x\<bar>\<rfloor> (- 1022) - 52)"
  have r: "round_half_even (- t) = - round_half_even t" for t
  proof (cases "t = of_int \<lfloor>t\<rfloor>")
    case True
    then have "round_half_even t = \<lfloor>t\<rfloor>" using round_half_even_int [of "\<lfloor>t\<rfloor>"] by simp
    moreover have "- t = of_int (- \<lfloor>t\<rfloor>)" using True by simp
    then have "round_half_even (- t) = - \<lfloor>t\<rfloor>" using round_half_even_int [of "- \<lfloor>t\<rfloor>"] by simp
    ultimately show ?thesis by simp
  next
    case False
    then have f: "\<lfloor>- t\<rfloor> = - \<lfloor>t\<rfloor> - 1" by linarith
    have lt: "of_int \<lfloor>t\<rfloor> < t" using False by linarith
    show ?thesis
      using lt by (auto simp: round_half_even_def Let_def f)
  qed
  show ?thesis using False
    by (simp add: round_double_def Let_def r js_neg_def u_def [symmetric])
qed

lemma unit_diagonal_axis:
  "sqdist_double \<lparr>js_x = Finite (6369051672525773 / 2 ^ 52), js_y = Finite 0\<rparr>
     \<lparr>js_x = Finite 0, js_y = Finite 0\<rparr> = Finite (2 + 1 / 2 ^ 51)"
  "sqdist_double \<lparr>js_x = Finite 0, js_y = Finite (6369051672525773 / 2 ^ 52)\<rparr>
     \<lparr>js_x = Finite 0, js_y = Finite 0\<rparr> = Finite (2 + 1 / 2 ^ 51)"
  by (simp_all only: sqdist_double_def coord_double.simps js_zero_ops round_double_zero
      round_double_root root_squared round_double_above_2)

lemma unit_diagonal_axis_neg:
  "sqdist_double \<lparr>js_x = Finite (- (6369051672525773 / 2 ^ 52)), js_y = Finite 0\<rparr>
     \<lparr>js_x = Finite 0, js_y = Finite 0\<rparr> = Finite (2 + 1 / 2 ^ 51)"
  "sqdist_double \<lparr>js_x = Finite 0, js_y = Finite (- (6369051672525773 / 2 ^ 52))\<rparr>
     \<lparr>js_x = Finite 0, js_y = Finite 0\<rparr> = Finite (2 + 1 / 2 ^ 51)"
proof -
  have n: "round_double (- (6369051672525773 / 2 ^ 52)) = Finite (- (6369051672525773 / 2 ^ 52))"
    by (simp only: round_double_neg round_double_root js_neg_def number.case)
  have m: "js_mul (Finite (- (6369051672525773 / 2 ^ 52))) (Finite (- (6369051672525773 / 2 ^ 52)))
      = Finite (2 + 1 / 2 ^ 51)"
    using root_squared by (simp add: js_mul_def)
  show "sqdist_double \<lparr>js_x = Finite (- (6369051672525773 / 2 ^ 52)), js_y = Finite 0\<rparr>
     \<lparr>js_x = Finite 0, js_y = Finite 0\<rparr> = Finite (2 + 1 / 2 ^ 51)"
    by (simp only: sqdist_double_def coord_double.simps js_zero_ops round_double_zero n m
        round_double_above_2)
  show "sqdist_double \<lparr>js_x = Finite 0, js_y = Finite (- (6369051672525773 / 2 ^ 52))\<rparr>
     \<lparr>js_x = Finite 0, js_y = Finite 0\<rparr> = Finite (2 + 1 / 2 ^ 51)"
    by (simp only: sqdist_double_def coord_double.simps js_zero_ops round_double_zero n m
        round_double_above_2)
qed

lemma just_outside:
  "sqdist_double \<lparr>js_x = Finite (- 1 - 1 / 2 ^ 52), js_y = Finite 0\<rparr>
     \<lparr>js_x = Finite 1, js_y = Finite 0\<rparr> = Finite 4"
proof -
  have t: "round_half_even ((- 1 - 1 / 2 ^ 52 + - 1) / 2 powi (1 - 52)) = - (2 ^ 52)"
    using round_half_even_tie [of "(- 1 - 1 / 2 ^ 52 + - 1) / 2 powi (1 - 52)" "- (2 ^ 52) - 1"]
    by (simp add: power_int_minus)
  have "round_double (- 1 - 1 / 2 ^ 52 + - 1) = Finite (of_int (- (2 ^ 52)) * 2 powi (1 - 52))"
    using t by (intro round_double_eval) (simp_all add: power_int_minus)
  then have s: "js_sub (Finite (- 1 - 1 / 2 ^ 52)) (Finite 1) = Finite (- 2)"
    by (simp add: js_sub_def js_add_def js_neg_def power_int_minus)
  have m: "js_mul (Finite (- 2)) (Finite (- 2)) = Finite 4"
    using js_int_ops(3) [of "- 2" "- 2"] by simp
  have a: "round_double 4 = Finite 4"
    using round_double_of_int [of 4] by simp
  show ?thesis
    by (simp only: sqdist_double_def coord_double.simps s m a js_zero_ops round_double_zero)
qed

lemma integer_axis:
  fixes a b c d k j :: int
  assumes "0 \<le> k" and "(c - a) * (c - a) + (d - b) * (d - b) = k * k" and "k * k < 2 ^ 53"
    and "0 \<le> j" and "(k + j) * (k + j) < 2 ^ 53"
  shows "contains_double
           (circle_region_double \<lparr>js_x = Finite (of_int a), js_y = Finite (of_int b)\<rparr>
              \<lparr>js_x = Finite (of_int c), js_y = Finite (of_int d)\<rparr>)
           \<lparr>js_x = Finite (of_int (a + (k + j))), js_y = Finite (of_int b)\<rparr> = (j = 0)"
    and "contains_double
           (circle_region_double \<lparr>js_x = Finite (of_int a), js_y = Finite (of_int b)\<rparr>
              \<lparr>js_x = Finite (of_int c), js_y = Finite (of_int d)\<rparr>)
           \<lparr>js_x = Finite (of_int (a - (k + j))), js_y = Finite (of_int b)\<rparr> = (j = 0)"
    and "contains_double
           (circle_region_double \<lparr>js_x = Finite (of_int a), js_y = Finite (of_int b)\<rparr>
              \<lparr>js_x = Finite (of_int c), js_y = Finite (of_int d)\<rparr>)
           \<lparr>js_x = Finite (of_int a), js_y = Finite (of_int (b + (k + j)))\<rparr> = (j = 0)"
    and "contains_double
           (circle_region_double \<lparr>js_x = Finite (of_int a), js_y = Finite (of_int b)\<rparr>
              \<lparr>js_x = Finite (of_int c), js_y = Finite (of_int d)\<rparr>)
           \<lparr>js_x = Finite (of_int a), js_y = Finite (of_int (b - (k + j)))\<rparr> = (j = 0)"
proof -
  have cmp: "((k + j) * (k + j) \<le> k * k) = (j = 0)"
  proof (cases "j = 0")
    case True
    then show ?thesis by simp
  next
    case False
    then have "0 < j" using assms(4) by simp
    then have "0 < j * j" by simp
    moreover have "0 \<le> k * j" using assms(1,4) by simp
    moreover have "(k + j) * (k + j) = k * k + 2 * (k * j) + j * j" by (simp add: algebra_simps)
    ultimately have "k * k < (k + j) * (k + j)" by linarith
    then show ?thesis using False by simp
  qed
  have e1: "(a + (k + j) - a) * (a + (k + j) - a) + (b - b) * (b - b) = (k + j) * (k + j)"
    and e2: "(a - (k + j) - a) * (a - (k + j) - a) + (b - b) * (b - b) = (k + j) * (k + j)"
    and e3: "(a - a) * (a - a) + (b + (k + j) - b) * (b + (k + j) - b) = (k + j) * (k + j)"
    and e4: "(a - a) * (a - a) + (b - (k + j) - b) * (b - (k + j) - b) = (k + j) * (k + j)"
    by (simp_all add: algebra_simps)
  show "contains_double
           (circle_region_double \<lparr>js_x = Finite (of_int a), js_y = Finite (of_int b)\<rparr>
              \<lparr>js_x = Finite (of_int c), js_y = Finite (of_int d)\<rparr>)
           \<lparr>js_x = Finite (of_int (a + (k + j))), js_y = Finite (of_int b)\<rparr> = (j = 0)"
    using integer_point [OF assms(1,2,3), of "a + (k + j)" b] assms(5) unfolding e1 cmp by simp
  show "contains_double
           (circle_region_double \<lparr>js_x = Finite (of_int a), js_y = Finite (of_int b)\<rparr>
              \<lparr>js_x = Finite (of_int c), js_y = Finite (of_int d)\<rparr>)
           \<lparr>js_x = Finite (of_int (a - (k + j))), js_y = Finite (of_int b)\<rparr> = (j = 0)"
    using integer_point [OF assms(1,2,3), of "a - (k + j)" b] assms(5) unfolding e2 cmp by simp
  show "contains_double
           (circle_region_double \<lparr>js_x = Finite (of_int a), js_y = Finite (of_int b)\<rparr>
              \<lparr>js_x = Finite (of_int c), js_y = Finite (of_int d)\<rparr>)
           \<lparr>js_x = Finite (of_int a), js_y = Finite (of_int (b + (k + j)))\<rparr> = (j = 0)"
    using integer_point [OF assms(1,2,3), of a "b + (k + j)"] assms(5) unfolding e3 cmp by simp
  show "contains_double
           (circle_region_double \<lparr>js_x = Finite (of_int a), js_y = Finite (of_int b)\<rparr>
              \<lparr>js_x = Finite (of_int c), js_y = Finite (of_int d)\<rparr>)
           \<lparr>js_x = Finite (of_int a), js_y = Finite (of_int (b - (k + j)))\<rparr> = (j = 0)"
    using integer_point [OF assms(1,2,3), of a "b - (k + j)"] assms(5) unfolding e4 cmp by simp
qed

section \<open>Claims\<close>

subsection \<open>C1: a drag from (0,0) to (3,4)\<close>

text \<open>
  Claim C1, as stated, does not hold: after \<^verbatim>\<open>start\<close> and \<^verbatim>\<open>mousedown\<close> at (0,0) the machine
  is in state \<^verbatim>\<open>'mousedown'\<close>, where the table registers \<^verbatim>\<open>mousemove\<close> only. A \<^verbatim>\<open>mouseup\<close>
  at (3,4) dispatched there is ignored: no Region descriptor is delivered, the callback is
  not called and the machine stays in state \<^verbatim>\<open>'mousedown'\<close> with the mode "select".
\<close>

theorem release_without_move_delivers_nothing:
  "run \<lparr>color = ''#00ff00'', lineWidth = 2\<rparr>
     [start_event (Function 0), pointer_event ''mousedown'' 0 0, pointer_event ''mouseup'' 3 4]
     (CircleSelect \<lparr>catalogCanvasCleared = False, width = 800, height = 600,
        callbacksByEventName = None, calls = []\<rparr>)
   = Inr \<lparr>state = ''mousedown'', callback = Function 0,
          startCoo = Some \<lparr>coo_x = 0, coo_y = 0\<rparr>, coo = None,
          view = \<lparr>catalogCanvasCleared = False, width = 800, height = 600,
            callbacksByEventName = None,
            calls = [SetCursor ''crosshair'', ShowReticle False, SetMode SELECT]\<rparr>\<rparr>"
  by (simp add: start_event_def pointer_event_def CircleSelect_def dispatch_def
      handler_at_simps start_def mousedown_def emit_def)

text \<open>
  Claim C1, amended: for the sequence \<^verbatim>\<open>start\<close>, \<^verbatim>\<open>mousedown\<close> at (0,0), a \<^verbatim>\<open>mousemove\<close> (with
  any parameters), \<^verbatim>\<open>mouseup\<close> at (3,4) on a fresh instance, the completion callback receives
  exactly one Region descriptor, with \<open>x = 0\<close>, \<open>y = 0\<close>, \<open>r = 5\<close>, label "circle", and
  its \<^verbatim>\<open>bbox()\<close> is \<open>{x: -5, y: -5, w: 10, h: 10}\<close>; the machine ends in state \<^verbatim>\<open>'mouseup'\<close>.
\<close>

theorem drag_3_4_5:
  "\<exists>m' reg.
     run opts
       [start_event (Function f), pointer_event ''mousedown'' 0 0, (''mousemove'', Some q),
        pointer_event ''mouseup'' 3 4]
       (CircleSelect v) = Inr m' \<and>
     state m' = ''mouseup'' \<and>
     delivered (calls (view m')) = delivered (calls v) @ [reg] \<and>
     reg_x reg = 0 \<and> reg_y reg = 0 \<and> reg_r reg = 5 \<and> reg_label reg = ''circle'' \<and>
     bbox reg = \<lparr>box_x = - 5, box_y = - 5, box_w = 10, box_h = 10\<rparr>"
proof -
  let ?a = "\<lparr>coo_x = 0, coo_y = 0\<rparr>" and ?c = "\<lparr>coo_x = 3, coo_y = 4\<rparr>"
  let ?p = "\<lparr>p_callback = Undefined, p_coo = Some ?c\<rparr>"
  define m3 where "m3 = (emit RequestRedraw
      ((emit (SetMode SELECT) ((emit (ShowReticle False) (emit (SetCursor ''crosshair'') (CircleSelect v)))
         \<lparr>callback := Function f\<rparr>))\<lparr>state := ''start'', startCoo := Some ?a, state := ''mousedown'', coo := p_coo q\<rparr>))
      \<lparr>state := ''mousemove''\<rparr>"
  have pre: "run opts [start_event (Function f), pointer_event ''mousedown'' 0 0, (''mousemove'', Some q)]
      (CircleSelect v) = Inr m3"
    by (simp add: m3_def start_event_def pointer_event_def CircleSelect_def dispatch_def
      handler_at_simps start_def mousedown_def mousemove_def emit_def)
  have f3: "startCoo m3 = Some ?a" "callback m3 = Function f" "state m3 = ''mousemove''"
    "delivered (calls (view m3)) = delivered (calls v)"
    by (simp_all add: m3_def emit_def CircleSelect_def delivered_append delivered_simps)
  have pc: "p_coo ?p = Some ?c" by simp
  obtain m4 where m4: "mouseup (Some ?p) m3 = Inr m4"
    "delivered (calls (view m4)) = delivered (calls (view m3)) @
       [circle_region (coo_x ?a) (coo_y ?a) (sqrt (sqdist ?c ?a)) (sqdist ?c ?a)]"
    using mouseup_delivers [OF f3(1) pc f3(2)] by blast
  have d: "sqdist ?c ?a = 25" by (simp add: sqdist_def)
  have "run opts
       [start_event (Function f), pointer_event ''mousedown'' 0 0, (''mousemove'', Some q),
        pointer_event ''mouseup'' 3 4] (CircleSelect v) = run opts [pointer_event ''mouseup'' 3 4] m3"
    using pre
      run_append [of opts "[start_event (Function f), pointer_event ''mousedown'' 0 0, (''mousemove'', Some q)]"
        "[pointer_event ''mouseup'' 3 4]" "CircleSelect v"]
    by simp
  also have "\<dots> = Inr (m4\<lparr>state := ''mouseup''\<rparr>)"
    using m4(1) f3(3) by (simp add: pointer_event_def dispatch_def handler_at_simps)
  finally have r: "run opts
       [start_event (Function f), pointer_event ''mousedown'' 0 0, (''mousemove'', Some q),
        pointer_event ''mouseup'' 3 4] (CircleSelect v) = Inr (m4\<lparr>state := ''mouseup''\<rparr>)" .
  show ?thesis
    apply (rule exI [of _ "m4\<lparr>state := ''mouseup''\<rparr>"])
    apply (rule exI [of _ "circle_region 0 0 5 25"])
    using r m4(2) f3(4) d
    apply (simp add: sqrt_25 bbox_circle)
    apply (simp add: circle_region_def)
    done
qed

subsection \<open>C2: pointer-out finalizes like a release\<close>

text \<open>
  Claim C2: \<^verbatim>\<open>mouseout\<close> is the very handler \<^verbatim>\<open>mouseup\<close>, and the table registers the two
  under the same states. Dispatching \<^verbatim>\<open>mouseout\<close> therefore has the outcome of dispatching
  \<^verbatim>\<open>mouseup\<close> on the same controller with the same parameters: the same exception if one is
  thrown, otherwise the same controller and view (the same calls, the same Region descriptor
  delivered), except that the state name recorded is \<^verbatim>\<open>'mouseout'\<close> instead of
  \<^verbatim>\<open>'mouseup'\<close>; and these two states register the same handlers.
\<close>

theorem mouseout_finalizes_like_mouseup:
  "mouseout = mouseup \<and>
   handler_at opts (state m) ''mouseout'' = handler_at opts (state m) ''mouseup'' \<and>
   (case dispatch opts ''mouseup'' ps m of
      Inl err \<Rightarrow> dispatch opts ''mouseout'' ps m = Inl err
    | Inr m' \<Rightarrow>
        dispatch opts ''mouseout'' ps m =
          Inr (if handler_at opts (state m) ''mouseup'' = None then m'
               else m'\<lparr>state := ''mouseout''\<rparr>)) \<and>
   delivered (calls (view (settled (dispatch opts ''mouseout'' ps m)))) =
     delivered (calls (view (settled (dispatch opts ''mouseup'' ps m)))) \<and>
   view (settled (dispatch opts ''mouseout'' ps m)) =
     view (settled (dispatch opts ''mouseup'' ps m)) \<and>
   handler_at opts ''mouseout'' e = handler_at opts ''mouseup'' e"
proof -
  have h: "handler_at opts (state m) ''mouseout'' = handler_at opts (state m) ''mouseup''"
    by (rule handler_at_mouseout)
  have d: "(case dispatch opts ''mouseup'' ps m of
      Inl err \<Rightarrow> dispatch opts ''mouseout'' ps m = Inl err
    | Inr m' \<Rightarrow>
        dispatch opts ''mouseout'' ps m =
          Inr (if handler_at opts (state m) ''mouseup'' = None then m'
               else m'\<lparr>state := ''mouseout''\<rparr>))"
    by (auto simp: dispatch_def h split: option.splits sum.splits)
  have v: "view (settled (dispatch opts ''mouseout'' ps m)) =
     view (settled (dispatch opts ''mouseup'' ps m))"
    by (auto simp: settled_dispatch h split: option.splits sum.splits)
  show ?thesis using h d v by (simp add: mouseout_def idle_rows_equal)
qed

subsection \<open>C3: events without a handler are ignored\<close>

text \<open>
  Claim C3: when the table has no handler under the current state and the event name,
  \<^verbatim>\<open>dispatch\<close> returns the controller unchanged: the state, the gesture-local fields and the
  view with its record of calls are what they were. In particular \<^verbatim>\<open>draw\<close> on a fresh
  instance does nothing, and so does \<^verbatim>\<open>draw\<close> after any script that contains no
  \<^verbatim>\<open>mousedown\<close>.
\<close>

theorem unregistered_event_is_ignored:
  "(handler_at opts (state m) e = None \<longrightarrow> dispatch opts e ps m = Inr m) \<and>
   dispatch opts ''draw'' ps (CircleSelect v) = Inr (CircleSelect v) \<and>
   (''mousedown'' \<notin> set (map fst es) \<longrightarrow>
      run opts (es @ [(''draw'', ps)]) (CircleSelect v) = run opts es (CircleSelect v))"
proof -
  have fresh: "idle_or_started (CircleSelect v)"
    by (simp add: idle_or_started_def CircleSelect_def)
  have a: "handler_at opts (state m) e = None \<longrightarrow> dispatch opts e ps m = Inr m"
    by (simp add: dispatch_def)
  have b: "dispatch opts ''draw'' ps (CircleSelect v) = Inr (CircleSelect v)"
    using fresh by (rule draw_ignored_before_mousedown)
  have c: "run opts (es @ [(''draw'', ps)]) (CircleSelect v) = run opts es (CircleSelect v)"
    if nd: "''mousedown'' \<notin> set (map fst es)"
  proof (cases "run opts es (CircleSelect v)")
    case (Inl err)
    then show ?thesis by (simp add: run_append)
  next
    case (Inr m')
    then have "idle_or_started m'" using fresh nd before_mousedown_run by blast
    then have "dispatch opts ''draw'' ps m' = Inr m'" by (rule draw_ignored_before_mousedown)
    then show ?thesis using Inr by (simp add: run_append)
  qed
  show ?thesis using a b c by blast
qed

text \<open>
  An instance of C3: \<^verbatim>\<open>mouseup\<close> in state \<^verbatim>\<open>'mousedown'\<close> is ignored, and \<^verbatim>\<open>draw\<close> after
  \<^verbatim>\<open>start\<close> changes nothing.
\<close>

theorem unregistered_event_is_ignored_witness:
  "dispatch \<lparr>color = ''#00ff00'', lineWidth = 2\<rparr> ''mouseup''
     (Some \<lparr>p_callback = Undefined, p_coo = Some \<lparr>coo_x = 3, coo_y = 4\<rparr>\<rparr>)
     \<lparr>state = ''mousedown'', callback = Function 0,
      startCoo = Some \<lparr>coo_x = 0, coo_y = 0\<rparr>, coo = None,
      view = \<lparr>catalogCanvasCleared = False, width = 800, height = 600,
        callbacksByEventName = None,
        calls = [SetCursor ''crosshair'', ShowReticle False, SetMode SELECT]\<rparr>\<rparr>
   = Inr \<lparr>state = ''mousedown'', callback = Function 0,
      startCoo = Some \<lparr>coo_x = 0, coo_y = 0\<rparr>, coo = None,
      view = \<lparr>catalogCanvasCleared = False, width = 800, height = 600,
        callbacksByEventName = None,
        calls = [SetCursor ''crosshair'', ShowReticle False, SetMode SELECT]\<rparr>\<rparr> \<and>
   run \<lparr>color = ''#00ff00'', lineWidth = 2\<rparr>
     ([start_event (Function 0)] @ [(''draw'', None)])
     (CircleSelect \<lparr>catalogCanvasCleared = False, width = 800, height = 600,
        callbacksByEventName = None, calls = []\<rparr>)
   = run \<lparr>color = ''#00ff00'', lineWidth = 2\<rparr> [start_event (Function 0)]
     (CircleSelect \<lparr>catalogCanvasCleared = False, width = 800, height = 600,
        callbacksByEventName = None, calls = []\<rparr>)"
proof -
  let ?opts = "\<lparr>color = ''#00ff00'', lineWidth = 2\<rparr>"
  let ?m = "\<lparr>state = ''mousedown'', callback = Function 0,
      startCoo = Some \<lparr>coo_x = 0, coo_y = 0\<rparr>, coo = None,
      view = \<lparr>catalogCanvasCleared = False, width = 800, height = 600,
        callbacksByEventName = None,
        calls = [SetCursor ''crosshair'', ShowReticle False, SetMode SELECT]\<rparr>\<rparr>"
  have h: "handler_at ?opts (state ?m) ''mouseup'' = None"
    by (simp add: handler_at_simps)
  have n: "''mousedown'' \<notin> set (map fst [start_event (Function 0)])"
    by (simp add: start_event_def)
  have 1: "dispatch ?opts ''mouseup''
      (Some \<lparr>p_callback = Undefined, p_coo = Some \<lparr>coo_x = 3, coo_y = 4\<rparr>\<rparr>) ?m = Inr ?m"
    using unregistered_event_is_ignored [where opts = ?opts and m = ?m and e = "''mouseup''"] h
    by blast
  have 2: "run ?opts ([start_event (Function 0)] @ [(''draw'', None)])
     (CircleSelect \<lparr>catalogCanvasCleared = False, width = 800, height = 600,
        callbacksByEventName = None, calls = []\<rparr>)
   = run ?opts [start_event (Function 0)]
     (CircleSelect \<lparr>catalogCanvasCleared = False, width = 800, height = 600,
        callbacksByEventName = None, calls = []\<rparr>)"
    using unregistered_event_is_ignored [where opts = ?opts and es = "[start_event (Function 0)]"] n
    by blast
  from 1 2 show ?thesis by (rule conjI)
qed

subsection \<open>C4: membership in the Region\<close>

text \<open>
  Claim C4, as stated, does not hold in the arithmetic of the program. After a drag from
  (0,0) to (1,1) the squared radius is 2 and the radius of the Region is the double
  1.4142135623730951; its square rounds to 2.0000000000000004, which exceeds 2, so
  \<^verbatim>\<open>contains\<close> is false at all four points at distance \<open>r\<close> from the anchor along the axes.
  After a drag from (1,0) to (3,0) the radius is 2, and the point (-1.0000000000000002, 0),
  at a distance greater than \<open>r\<close> from the anchor, is contained: the difference of the
  abscissas rounds to -2.
\<close>

theorem axis_point_at_radius_not_contained:
  "dreg_r (circle_region_double \<lparr>js_x = Finite 0, js_y = Finite 0\<rparr>
       \<lparr>js_x = Finite 1, js_y = Finite 1\<rparr>) = Finite (6369051672525773 / 2 ^ 52) \<and>
   \<not> contains_double
       (circle_region_double \<lparr>js_x = Finite 0, js_y = Finite 0\<rparr> \<lparr>js_x = Finite 1, js_y = Finite 1\<rparr>)
       \<lparr>js_x = Finite (6369051672525773 / 2 ^ 52), js_y = Finite 0\<rparr> \<and>
   \<not> contains_double
       (circle_region_double \<lparr>js_x = Finite 0, js_y = Finite 0\<rparr> \<lparr>js_x = Finite 1, js_y = Finite 1\<rparr>)
       \<lparr>js_x = Finite (- (6369051672525773 / 2 ^ 52)), js_y = Finite 0\<rparr> \<and>
   \<not> contains_double
       (circle_region_double \<lparr>js_x = Finite 0, js_y = Finite 0\<rparr> \<lparr>js_x = Finite 1, js_y = Finite 1\<rparr>)
       \<lparr>js_x = Finite 0, js_y = Finite (6369051672525773 / 2 ^ 52)\<rparr> \<and>
   \<not> contains_double
       (circle_region_double \<lparr>js_x = Finite 0, js_y = Finite 0\<rparr> \<lparr>js_x = Finite 1, js_y = Finite 1\<rparr>)
       \<lparr>js_x = Finite 0, js_y = Finite (- (6369051672525773 / 2 ^ 52))\<rparr> \<and>
   dreg_r (circle_region_double \<lparr>js_x = Finite 1, js_y = Finite 0\<rparr>
       \<lparr>js_x = Finite 3, js_y = Finite 0\<rparr>) = Finite 2 \<and>
   contains_double
       (circle_region_double \<lparr>js_x = Finite 1, js_y = Finite 0\<rparr> \<lparr>js_x = Finite 3, js_y = Finite 0\<rparr>)
       \<lparr>js_x = Finite (- 1 - 1 / 2 ^ 52), js_y = Finite 0\<rparr>"
proof -
  have far: "\<not> js_le (Finite (2 + 1 / 2 ^ 51)) (Finite 2)"
    by (simp add: js_le_def)
  have r2: "sqdist_double \<lparr>js_x = Finite 3, js_y = Finite 0\<rparr> \<lparr>js_x = Finite 1, js_y = Finite 0\<rparr>
      = Finite 4"
    using integer_circle(1) [of 2 3 1 0 0] by simp
  have r: "dreg_r (circle_region_double \<lparr>js_x = Finite 1, js_y = Finite 0\<rparr>
       \<lparr>js_x = Finite 3, js_y = Finite 0\<rparr>) = Finite 2"
    using integer_circle(2) [of 2 3 1 0 0] by simp
  have near: "js_le (Finite 4) (Finite 4)" by (simp add: js_le_def)
  show ?thesis
    using far near r
    by (simp only: contains_double_iff unit_diagonal unit_diagonal_radius unit_diagonal_axis
        unit_diagonal_axis_neg just_outside r2 simp_thms)
qed

text \<open>
  Claim C4, amended: for finite coordinates, \<^verbatim>\<open>contains\<close> is true of the anchor and of the
  release position. It is the comparison \<open>dx*dx + dy*dy <= r2\<close> in double arithmetic,
  with \<open>r2\<close> as computed at finalization and no square root; the \<open>r\<close> of the Region is
  \<^verbatim>\<open>Math.sqrt\<close> of \<open>r2\<close>. When the coordinates are integers and \<open>r2\<close> is the square of an
  integer \<open>k\<close>, then \<open>r = k\<close>, the four points at distance \<open>k\<close> from the anchor along the
  axes are contained and those at distance \<open>k + j\<close>, for an integer \<open>j > 0\<close>, are not
  (squared distances below 2^53, where integers are exact).
\<close>

theorem contains_compares_squared_distance:
  fixes a b c' d k j :: int
  shows
  "(js_x s = Finite sx \<and> js_y s = Finite sy \<and> js_x c = Finite cx \<and> js_y c = Finite cy \<longrightarrow>
      contains_double (circle_region_double s c) s \<and>
      contains_double (circle_region_double s c) c) \<and>
   dreg_x (circle_region_double s c) = js_x s \<and>
   dreg_y (circle_region_double s c) = js_y s \<and>
   dreg_r (circle_region_double s c) = js_sqrt (sqdist_double c s) \<and>
   contains_double (circle_region_double s c) q =
     js_le (js_add
        (js_mul (js_sub (js_x q) (js_x s)) (js_sub (js_x q) (js_x s)))
        (js_mul (js_sub (js_y q) (js_y s)) (js_sub (js_y q) (js_y s))))
      (sqdist_double c s) \<and>
   (0 \<le> k \<and> (c' - a) * (c' - a) + (d - b) * (d - b) = k * k \<and> k * k < 2 ^ 53 \<and>
    0 < j \<and> (k + j) * (k + j) < 2 ^ 53 \<longrightarrow>
      dreg_r (circle_region_double \<lparr>js_x = Finite (of_int a), js_y = Finite (of_int b)\<rparr>
        \<lparr>js_x = Finite (of_int c'), js_y = Finite (of_int d)\<rparr>) = Finite (of_int k) \<and>
      contains_double
        (circle_region_double \<lparr>js_x = Finite (of_int a), js_y = Finite (of_int b)\<rparr>
           \<lparr>js_x = Finite (of_int c'), js_y = Finite (of_int d)\<rparr>)
        \<lparr>js_x = Finite (of_int (a + k)), js_y = Finite (of_int b)\<rparr> \<and>
      contains_double
        (circle_region_double \<lparr>js_x = Finite (of_int a), js_y = Finite (of_int b)\<rparr>
           \<lparr>js_x = Finite (of_int c'), js_y = Finite (of_int d)\<rparr>)
        \<lparr>js_x = Finite (of_int (a - k)), js_y = Finite (of_int b)\<rparr> \<and>
      contains_double
        (circle_region_double \<lparr>js_x = Finite (of_int a), js_y = Finite (of_int b)\<rparr>
           \<lparr>js_x = Finite (of_int c'), js_y = Finite (of_int d)\<rparr>)
        \<lparr>js_x = Finite (of_int a), js_y = Finite (of_int (b + k))\<rparr> \<and>
      contains_double
        (circle_region_double \<lparr>js_x = Finite (of_int a), js_y = Finite (of_int b)\<rparr>
           \<lparr>js_x = Finite (of_int c'), js_y = Finite (of_int d)\<rparr>)
        \<lparr>js_x = Finite (of_int a), js_y = Finite (of_int (b - k))\<rparr> \<and>
      \<not> contains_double
        (circle_region_double \<lparr>js_x = Finite (of_int a), js_y = Finite (of_int b)\<rparr>
           \<lparr>js_x = Finite (of_int c'), js_y = Finite (of_int d)\<rparr>)
        \<lparr>js_x = Finite (of_int (a + (k + j))), js_y = Finite (of_int b)\<rparr> \<and>
      \<not> contains_double
        (circle_region_double \<lparr>js_x = Finite (of_int a), js_y = Finite (of_int b)\<rparr>
           \<lparr>js_x = Finite (of_int c'), js_y = Finite (of_int d)\<rparr>)
        \<lparr>js_x = Finite (of_int (a - (k + j))), js_y = Finite (of_int b)\<rparr> \<and>
      \<not> contains_double
        (circle_region_double \<lparr>js_x = Finite (of_int a), js_y = Finite (of_int b)\<rparr>
           \<lparr>js_x = Finite (of_int c'), js_y = Finite (of_int d)\<rparr>)
        \<lparr>js_x = Finite (of_int a), js_y = Finite (of_int (b + (k + j)))\<rparr> \<and>
      \<not> contains_double
        (circle_region_double \<lparr>js_x = Finite (of_int a), js_y = Finite (of_int b)\<rparr>
           \<lparr>js_x = Finite (of_int c'), js_y = Finite (of_int d)\<rparr>)
        \<lparr>js_x = Finite (of_int a), js_y = Finite (of_int (b - (k + j)))\<rparr>)"
proof -
  let ?R = "circle_region_double \<lparr>js_x = Finite (of_int a), js_y = Finite (of_int b)\<rparr>
           \<lparr>js_x = Finite (of_int c'), js_y = Finite (of_int d)\<rparr>"
  have general: "contains_double (circle_region_double s c) s \<and>
      contains_double (circle_region_double s c) c"
    if "js_x s = Finite sx \<and> js_y s = Finite sy \<and> js_x c = Finite cx \<and> js_y c = Finite cy"
    using that contains_double_anchor_release [of s sx sy c cx cy] by simp
  have fields: "dreg_x (circle_region_double s c) = js_x s"
    "dreg_y (circle_region_double s c) = js_y s"
    "dreg_r (circle_region_double s c) = js_sqrt (sqdist_double c s)"
    by (simp_all add: circle_region_double_def Let_def)
  have test: "contains_double (circle_region_double s c) q =
     js_le (js_add
        (js_mul (js_sub (js_x q) (js_x s)) (js_sub (js_x q) (js_x s)))
        (js_mul (js_sub (js_y q) (js_y s)) (js_sub (js_y q) (js_y s))))
      (sqdist_double c s)"
    by (simp add: contains_double_iff sqdist_double_def)
  have ints: "dreg_r ?R = Finite (of_int k) \<and>
      contains_double ?R \<lparr>js_x = Finite (of_int (a + k)), js_y = Finite (of_int b)\<rparr> \<and>
      contains_double ?R \<lparr>js_x = Finite (of_int (a - k)), js_y = Finite (of_int b)\<rparr> \<and>
      contains_double ?R \<lparr>js_x = Finite (of_int a), js_y = Finite (of_int (b + k))\<rparr> \<and>
      contains_double ?R \<lparr>js_x = Finite (of_int a), js_y = Finite (of_int (b - k))\<rparr> \<and>
      \<not> contains_double ?R \<lparr>js_x = Finite (of_int (a + (k + j))), js_y = Finite (of_int b)\<rparr> \<and>
      \<not> contains_double ?R \<lparr>js_x = Finite (of_int (a - (k + j))), js_y = Finite (of_int b)\<rparr> \<and>
      \<not> contains_double ?R \<lparr>js_x = Finite (of_int a), js_y = Finite (of_int (b + (k + j)))\<rparr> \<and>
      \<not> contains_double ?R \<lparr>js_x = Finite (of_int a), js_y = Finite (of_int (b - (k + j)))\<rparr>"
    if h: "0 \<le> k \<and> (c' - a) * (c' - a) + (d - b) * (d - b) = k * k \<and> k * k < 2 ^ 53 \<and>
        0 < j \<and> (k + j) * (k + j) < 2 ^ 53"
  proof -
    have k: "0 \<le> k" "(c' - a) * (c' - a) + (d - b) * (d - b) = k * k" "k * k < 2 ^ 53"
      and j: "0 \<le> j" "j \<noteq> 0" "(k + j) * (k + j) < 2 ^ 53"
      and z: "(0::int) \<le> 0" "(k + 0) * (k + 0) < 2 ^ 53"
      using h by simp_all
    have r: "dreg_r ?R = Finite (of_int k)" using k by (rule integer_circle(2))
    note on = integer_axis [OF k z, simplified]
    note off = integer_axis [OF k j(1,3)]
    show ?thesis using r on off j(2) by simp
  qed
  show ?thesis using general fields test ints by blast
qed

text \<open>
  An instance of C4, amended: the drag from (0,0) to (3,4), radius 5.
\<close>

theorem contains_compares_squared_distance_witness:
  "contains_double
     (circle_region_double \<lparr>js_x = Finite 0, js_y = Finite 0\<rparr> \<lparr>js_x = Finite 3, js_y = Finite 4\<rparr>)
     \<lparr>js_x = Finite 0, js_y = Finite 0\<rparr> \<and>
   contains_double
     (circle_region_double \<lparr>js_x = Finite 0, js_y = Finite 0\<rparr> \<lparr>js_x = Finite 3, js_y = Finite 4\<rparr>)
     \<lparr>js_x = Finite 3, js_y = Finite 4\<rparr> \<and>
   dreg_r (circle_region_double \<lparr>js_x = Finite 0, js_y = Finite 0\<rparr>
     \<lparr>js_x = Finite 3, js_y = Finite 4\<rparr>) = Finite 5 \<and>
   contains_double
     (circle_region_double \<lparr>js_x = Finite 0, js_y = Finite 0\<rparr> \<lparr>js_x = Finite 3, js_y = Finite 4\<rparr>)
     \<lparr>js_x = Finite 5, js_y = Finite 0\<rparr> \<and>
   contains_double
     (circle_region_double \<lparr>js_x = Finite 0, js_y = Finite 0\<rparr> \<lparr>js_x = Finite 3, js_y = Finite 4\<rparr>)
     \<lparr>js_x = Finite 0, js_y = Finite (- 5)\<rparr> \<and>
   \<not> contains_double
     (circle_region_double \<lparr>js_x = Finite 0, js_y = Finite 0\<rparr> \<lparr>js_x = Finite 3, js_y = Finite 4\<rparr>)
     \<lparr>js_x = Finite 6, js_y = Finite 0\<rparr>"
proof -
  let ?s = "\<lparr>js_x = Finite 0, js_y = Finite 0\<rparr>" and ?c = "\<lparr>js_x = Finite 3, js_y = Finite 4\<rparr>"
  have f: "js_x ?s = Finite 0 \<and> js_y ?s = Finite 0 \<and> js_x ?c = Finite 3 \<and> js_y ?c = Finite 4"
    by simp
  have i: "(0::int) \<le> 5 \<and> (3 - 0) * (3 - 0) + (4 - 0) * (4 - 0) = (5::int) * 5 \<and>
      (5::int) * 5 < 2 ^ 53 \<and> (0::int) < 1 \<and> (5 + 1) * (5 + 1) < (2::int) ^ 53"
    by simp
  have g: "contains_double (circle_region_double ?s ?c) ?s \<and>
      contains_double (circle_region_double ?s ?c) ?c"
    using contains_compares_squared_distance [where s = ?s and c = ?c and sx = 0 and sy = 0
        and cx = 3 and cy = 4] f
    by blast
  note ints = contains_compares_squared_distance [where a = 0 and b = 0 and c' = 3 and d = 4
        and k = 5 and j = 1, THEN conjunct2, THEN conjunct2, THEN conjunct2, THEN conjunct2,
        THEN conjunct2, THEN mp, OF i]
  show ?thesis
    using g ints by simp
qed

subsection \<open>C5: finalization without a completion callback\<close>

text \<open>
  Claim C5: when the stored callback is not a function, the finalization handler (under
  either name) calls no completion callback and still shows the reticle, restores the
  default cursor, notifies the view's "select" callback when one is registered, sets the
  mode to "pan" and requests a redraw. With a function stored the calls are the same, with
  the callback's call in front. The presence test is \<^verbatim>\<open>typeof this.callback === 'function'\<close>.
\<close>

theorem finalization_without_callback:
  assumes "startCoo m = Some s" and "p_coo p = Some c" and "\<not> is_function (callback m)"
  shows
    "mouseup (Some p) m =
       Inr (m\<lparr>coo := Some c,
              view := (view m)\<lparr>calls := calls (view m)
                @ [ShowReticle True, SetCursor ''default'']
                @ select_calls (m\<lparr>coo := Some c\<rparr>)
                @ [SetMode PAN, RequestRedraw]\<rparr>\<rparr>) \<and>
     mouseout (Some p) m = mouseup (Some p) m \<and>
     mouseup (Some p) (m\<lparr>callback := Function f\<rparr>) =
       Inr (m\<lparr>callback := Function f, coo := Some c,
              view := (view m)\<lparr>calls := calls (view m)
                @ [Callback f (circle_region (coo_x s) (coo_y s) (sqrt (sqdist c s)) (sqdist c s))]
                @ [ShowReticle True, SetCursor ''default'']
                @ select_calls (m\<lparr>coo := Some c\<rparr>)
                @ [SetMode PAN, RequestRedraw]\<rparr>\<rparr>) \<and>
     (callbacksByEventName (view m) = Some cbs \<and> cbs ''select'' = Function g \<longrightarrow>
        select_calls (m\<lparr>coo := Some c\<rparr>) = [SelectObjects (Some s) (Some c), SelectCallback g]) \<and>
     (callbacksByEventName (view m) = None \<longrightarrow> select_calls (m\<lparr>coo := Some c\<rparr>) = [])"
proof -
  have nocb: "callback_calls (callback m) reg = []" for reg
    using assms(3) by (cases "callback m") (simp_all add: callback_calls_def)
  have a: "mouseup (Some p) m =
       Inr (m\<lparr>coo := Some c,
              view := (view m)\<lparr>calls := calls (view m)
                @ [ShowReticle True, SetCursor ''default'']
                @ select_calls (m\<lparr>coo := Some c\<rparr>)
                @ [SetMode PAN, RequestRedraw]\<rparr>\<rparr>)"
    by (simp add: mouseup_completes [OF assms(1,2)] nocb)
  have sf: "startCoo (m\<lparr>callback := Function f\<rparr>) = Some s" using assms(1) by simp
  have sc: "select_calls (m\<lparr>callback := Function f, coo := Some c\<rparr>) = select_calls (m\<lparr>coo := Some c\<rparr>)"
    by (simp add: select_calls_def split: option.splits jsvalue.splits)
  have b: "mouseup (Some p) (m\<lparr>callback := Function f\<rparr>) =
       Inr (m\<lparr>callback := Function f, coo := Some c,
              view := (view m)\<lparr>calls := calls (view m)
                @ [Callback f (circle_region (coo_x s) (coo_y s) (sqrt (sqdist c s)) (sqdist c s))]
                @ [ShowReticle True, SetCursor ''default'']
                @ select_calls (m\<lparr>coo := Some c\<rparr>)
                @ [SetMode PAN, RequestRedraw]\<rparr>\<rparr>)"
    by (simp add: mouseup_completes [OF sf assms(2)] callback_calls_def sc)
  have d: "callbacksByEventName (view m) = Some cbs \<and> cbs ''select'' = Function g \<longrightarrow>
        select_calls (m\<lparr>coo := Some c\<rparr>) = [SelectObjects (Some s) (Some c), SelectCallback g]"
    using assms(1) by (simp add: select_calls_def)
  have e: "callbacksByEventName (view m) = None \<longrightarrow> select_calls (m\<lparr>coo := Some c\<rparr>) = []"
    by (simp add: select_calls_def)
  show ?thesis using a b d e by (simp add: mouseout_def)
qed

text \<open>
  An instance of C5, with a "select" callback registered on the view.
\<close>

theorem finalization_without_callback_witness:
  "mouseup (Some \<lparr>p_callback = Undefined, p_coo = Some \<lparr>coo_x = 3, coo_y = 4\<rparr>\<rparr>)
     \<lparr>state = ''mousemove'', callback = Undefined,
      startCoo = Some \<lparr>coo_x = 0, coo_y = 0\<rparr>, coo = Some \<lparr>coo_x = 1, coo_y = 1\<rparr>,
      view = \<lparr>catalogCanvasCleared = False, width = 800, height = 600,
        callbacksByEventName = Some (\<lambda>n. if n = ''select'' then Function 7 else Undefined),
        calls = []\<rparr>\<rparr>
   = Inr \<lparr>state = ''mousemove'', callback = Undefined,
      startCoo = Some \<lparr>coo_x = 0, coo_y = 0\<rparr>, coo = Some \<lparr>coo_x = 3, coo_y = 4\<rparr>,
      view = \<lparr>catalogCanvasCleared = False, width = 800, height = 600,
        callbacksByEventName = Some (\<lambda>n. if n = ''select'' then Function 7 else Undefined),
        calls = [ShowReticle True, SetCursor ''default'',
          SelectObjects (Some \<lparr>coo_x = 0, coo_y = 0\<rparr>) (Some \<lparr>coo_x = 3, coo_y = 4\<rparr>),
          SelectCallback 7, SetMode PAN, RequestRedraw]\<rparr>\<rparr>"
proof -
  let ?s = "\<lparr>coo_x = 0, coo_y = 0\<rparr>" and ?c = "\<lparr>coo_x = 3, coo_y = 4\<rparr>"
  let ?p = "\<lparr>p_callback = Undefined, p_coo = Some ?c\<rparr>"
  let ?cbs = "\<lambda>n. if n = ''select'' then Function 7 else Undefined"
  let ?m = "\<lparr>state = ''mousemove'', callback = Undefined,
      startCoo = Some ?s, coo = Some \<lparr>coo_x = 1, coo_y = 1\<rparr>,
      view = \<lparr>catalogCanvasCleared = False, width = 800, height = 600,
        callbacksByEventName = Some ?cbs, calls = []\<rparr>\<rparr>"
  have h: "startCoo ?m = Some ?s" "p_coo ?p = Some ?c" "\<not> is_function (callback ?m)"
    by simp_all
  have r: "callbacksByEventName (view ?m) = Some ?cbs \<and> ?cbs ''select'' = Function 7"
    by simp
  show ?thesis
    using finalization_without_callback [OF h, where cbs = ?cbs and g = 7] r by simp
qed

subsection \<open>C6: where the start event is accepted\<close>

text \<open>
  Claim C6, as stated, does not hold: \<^verbatim>\<open>start\<close> is registered in the states
  \<^verbatim>\<open>'mouseup'\<close> and \<^verbatim>\<open>'mouseout'\<close> only. Dispatched in the middle of a gesture (here in state
  \<^verbatim>\<open>'mousedown'\<close>) it is ignored: the callback of the first \<^verbatim>\<open>start\<close> stays stored and the view
  receives no further call.
\<close>

theorem start_ignored_mid_gesture:
  "run \<lparr>color = ''#00ff00'', lineWidth = 2\<rparr>
     [start_event (Function 0), pointer_event ''mousedown'' 0 0, start_event (Function 1)]
     (CircleSelect \<lparr>catalogCanvasCleared = False, width = 800, height = 600,
        callbacksByEventName = None, calls = []\<rparr>)
   = Inr \<lparr>state = ''mousedown'', callback = Function 0,
          startCoo = Some \<lparr>coo_x = 0, coo_y = 0\<rparr>, coo = None,
          view = \<lparr>catalogCanvasCleared = False, width = 800, height = 600,
            callbacksByEventName = None,
            calls = [SetCursor ''crosshair'', ShowReticle False, SetMode SELECT]\<rparr>\<rparr>"
  by (simp add: start_event_def pointer_event_def CircleSelect_def dispatch_def
      handler_at_simps start_def mousedown_def emit_def)

text \<open>
  Claim C6, amended: in the states \<^verbatim>\<open>'mouseup'\<close> and \<^verbatim>\<open>'mouseout'\<close>, dispatching \<^verbatim>\<open>start\<close>
  with a parameter object sets the cursor to crosshair, hides the reticle, stores the
  supplied callback, sets the mode to "select" and moves the machine to state \<^verbatim>\<open>'start'\<close>,
  where \<^verbatim>\<open>mousedown\<close> is the one event with a handler. In every other state \<^verbatim>\<open>start\<close> is
  ignored.
\<close>

theorem start_accepted_when_idle:
  "(state m = ''mouseup'' \<or> state m = ''mouseout'' \<longrightarrow>
      dispatch opts ''start'' (Some p) m =
        Inr (m\<lparr>state := ''start'', callback := p_callback p,
               view := (view m)\<lparr>calls := calls (view m) @
                 [SetCursor ''crosshair'', ShowReticle False, SetMode SELECT]\<rparr>\<rparr>)) \<and>
   (handler_at opts ''start'' e \<noteq> None) = (e = ''mousedown'') \<and>
   (state m \<noteq> ''mouseup'' \<and> state m \<noteq> ''mouseout'' \<longrightarrow>
      dispatch opts ''start'' ps m = Inr m)"
proof -
  have a: "dispatch opts ''start'' (Some p) m =
        Inr (m\<lparr>state := ''start'', callback := p_callback p,
               view := (view m)\<lparr>calls := calls (view m) @
                 [SetCursor ''crosshair'', ShowReticle False, SetMode SELECT]\<rparr>\<rparr>)"
    if "state m = ''mouseup'' \<or> state m = ''mouseout''"
    using that by (auto simp: dispatch_def handler_at_simps start_def emit_def)
  have b: "(handler_at opts ''start'' e \<noteq> None) = (e = ''mousedown'')"
    by (simp add: handler_at_simps)
  have c: "dispatch opts ''start'' ps m = Inr m"
    if "state m \<noteq> ''mouseup'' \<and> state m \<noteq> ''mouseout''"
  proof -
    have "handler_at opts (state m) ''start'' = None"
      using that by (cases m rule: state_cases) (simp_all add: handler_at_simps handler_at_other)
    then show ?thesis by (rule dispatch_unregistered)
  qed
  show ?thesis using a b c by blast
qed

text \<open>
  An instance of C6, amended: \<^verbatim>\<open>start\<close> on a fresh instance, and \<^verbatim>\<open>start\<close> in state
  \<^verbatim>\<open>'mousedown'\<close>.
\<close>

theorem start_accepted_when_idle_witness:
  "dispatch \<lparr>color = ''#00ff00'', lineWidth = 2\<rparr> ''start''
     (Some \<lparr>p_callback = Function 1, p_coo = None\<rparr>)
     (CircleSelect \<lparr>catalogCanvasCleared = False, width = 800, height = 600,
        callbacksByEventName = None, calls = []\<rparr>)
   = Inr \<lparr>state = ''start'', callback = Function 1, startCoo = None, coo = None,
          view = \<lparr>catalogCanvasCleared = False, width = 800, height = 600,
            callbacksByEventName = None,
            calls = [SetCursor ''crosshair'', ShowReticle False, SetMode SELECT]\<rparr>\<rparr> \<and>
   dispatch \<lparr>color = ''#00ff00'', lineWidth = 2\<rparr> ''start''
     (Some \<lparr>p_callback = Function 1, p_coo = None\<rparr>)
     \<lparr>state = ''mousedown'', callback = Function 0,
      startCoo = Some \<lparr>coo_x = 0, coo_y = 0\<rparr>, coo = None,
      view = \<lparr>catalogCanvasCleared = False, width = 800, height = 600,
        callbacksByEventName = None,
        calls = [SetCursor ''crosshair'', ShowReticle False, SetMode SELECT]\<rparr>\<rparr>
   = Inr \<lparr>state = ''mousedown'', callback = Function 0,
      startCoo = Some \<lparr>coo_x = 0, coo_y = 0\<rparr>, coo = None,
      view = \<lparr>catalogCanvasCleared = False, width = 800, height = 600,
        callbacksByEventName = None,
        calls = [SetCursor ''crosshair'', ShowReticle False, SetMode SELECT]\<rparr>\<rparr>"
proof -
  let ?opts = "\<lparr>color = ''#00ff00'', lineWidth = 2\<rparr>"
  let ?v = "\<lparr>catalogCanvasCleared = False, width = 800, height = 600,
        callbacksByEventName = None, calls = []\<rparr>"
  let ?p = "\<lparr>p_callback = Function 1, p_coo = None\<rparr>"
  let ?m = "\<lparr>state = ''mousedown'', callback = Function 0,
      startCoo = Some \<lparr>coo_x = 0, coo_y = 0\<rparr>, coo = None,
      view = \<lparr>catalogCanvasCleared = False, width = 800, height = 600,
        callbacksByEventName = None,
        calls = [SetCursor ''crosshair'', ShowReticle False, SetMode SELECT]\<rparr>\<rparr>"
  have i: "state (CircleSelect ?v) = ''mouseup'' \<or> state (CircleSelect ?v) = ''mouseout''"
    by (simp add: CircleSelect_def)
  have 1: "dispatch ?opts ''start'' (Some ?p) (CircleSelect ?v) =
      Inr ((CircleSelect ?v)\<lparr>state := ''start'', callback := p_callback ?p,
               view := (view (CircleSelect ?v))\<lparr>calls := calls (view (CircleSelect ?v)) @
                 [SetCursor ''crosshair'', ShowReticle False, SetMode SELECT]\<rparr>\<rparr>)"
    using start_accepted_when_idle [where opts = ?opts and m = "CircleSelect ?v" and p = ?p] i
    by blast
  have n: "state ?m \<noteq> ''mouseup'' \<and> state ?m \<noteq> ''mouseout''" by simp
  have 2: "dispatch ?opts ''start'' (Some ?p) ?m = Inr ?m"
    using start_accepted_when_idle [where opts = ?opts and m = ?m and ps = "Some ?p"] n
    by blast
  show ?thesis using 1 2 by (simp add: CircleSelect_def)
qed

subsection \<open>C7: a new gesture after finalization\<close>

text \<open>
  Claim C7: in an idle state (after finalization), whatever callback, anchor and pointer
  position the previous gesture left behind, a script that begins with \<^verbatim>\<open>start\<close> produces
  the same exception if any, the same state and the same view (the same calls, the same
  Region descriptors) as it does without them. The handler of \<^verbatim>\<open>start\<close> overwrites the callback;
  the anchor and the pointer position stay stored until \<^verbatim>\<open>mousedown\<close> and \<^verbatim>\<open>mousemove\<close>
  overwrite them, and no handler that reads them is registered before that. After the
  \<^verbatim>\<open>start\<close> the mode is "select" as long as the machine is in none of the two idle states,
  and "pan" once it is back in one of them, which only the finalization handler brings
  about.
\<close>

theorem restart_reads_no_stale_state:
  assumes "state m = ''mouseup'' \<or> state m = ''mouseout''"
  shows
    "observe (run opts ((''start'', Some p) # es) (m\<lparr>callback := k, startCoo := a, coo := c\<rparr>)) =
       observe (run opts ((''start'', Some p) # es) m) \<and>
     current_mode (calls (view (settled (run opts ((''start'', Some p) # es) m)))) =
       Some (if state (settled (run opts ((''start'', Some p) # es) m)) = ''mouseup'' \<or>
                state (settled (run opts ((''start'', Some p) # es) m)) = ''mouseout''
             then PAN else SELECT)"
proof -
  have "stale_eq (m\<lparr>callback := k, startCoo := a, coo := c\<rparr>) m"
    using assms by (rule stale_idle)
  then have "stale_eq_outcome
      (run opts ((''start'', Some p) # es) (m\<lparr>callback := k, startCoo := a, coo := c\<rparr>))
      (run opts ((''start'', Some p) # es) m)"
    by (rule stale_run)
  then have obs: "observe (run opts ((''start'', Some p) # es) (m\<lparr>callback := k, startCoo := a, coo := c\<rparr>)) =
       observe (run opts ((''start'', Some p) # es) m)"
    by (rule observe_stale_eq)
  obtain m1 where m1: "dispatch opts ''start'' (Some p) m = Inr m1" "mode_follows_state m1"
    using mode_after_accepted_start [OF assms] by blast
  have "mode_follows_state (settled (run opts es m1))"
    using m1(2) by (rule mode_run)
  then have "mode_follows_state (settled (run opts ((''start'', Some p) # es) m))"
    using m1(1) by simp
  then show ?thesis using obs by (simp add: mode_follows_state_def)
qed

text \<open>
  An instance of C7: a second gesture from (0,0) to (3,4) over a controller that still
  holds the anchor (10,10), the pointer position (20,20) and the callback 9 of the first.
\<close>

theorem restart_reads_no_stale_state_witness:
  "observe
     (run \<lparr>color = ''#00ff00'', lineWidth = 2\<rparr>
        [start_event (Function 1), pointer_event ''mousedown'' 0 0,
         pointer_event ''mousemove'' 1 1, pointer_event ''mouseup'' 3 4]
        \<lparr>state = ''mouseup'', callback = Function 9,
         startCoo = Some \<lparr>coo_x = 10, coo_y = 10\<rparr>, coo = Some \<lparr>coo_x = 20, coo_y = 20\<rparr>,
         view = \<lparr>catalogCanvasCleared = False, width = 800, height = 600,
           callbacksByEventName = None, calls = []\<rparr>\<rparr>)
   = (None, ''mouseup'',
      \<lparr>catalogCanvasCleared = False, width = 800, height = 600, callbacksByEventName = None,
       calls = [SetCursor ''crosshair'', ShowReticle False, SetMode SELECT, RequestRedraw,
         Callback 1 (circle_region 0 0 5 25), ShowReticle True, SetCursor ''default'',
         SetMode PAN, RequestRedraw]\<rparr>)"
proof -
  let ?opts = "\<lparr>color = ''#00ff00'', lineWidth = 2\<rparr>"
  let ?v = "\<lparr>catalogCanvasCleared = False, width = 800, height = 600,
           callbacksByEventName = None, calls = []\<rparr>"
  let ?m = "\<lparr>state = ''mouseup'', callback = Undefined, startCoo = None, coo = None, view = ?v\<rparr>"
  let ?p = "\<lparr>p_callback = Function 1, p_coo = None\<rparr>"
  let ?es = "[pointer_event ''mousedown'' 0 0, pointer_event ''mousemove'' 1 1,
     pointer_event ''mouseup'' 3 4]"
  have idle: "state ?m = ''mouseup'' \<or> state ?m = ''mouseout''" by simp
  have d: "sqdist \<lparr>coo_x = 3, coo_y = 4\<rparr> \<lparr>coo_x = 0, coo_y = 0\<rparr> = 25"
    by (simp add: sqdist_def)
  have fresh: "observe (run ?opts ((''start'', Some ?p) # ?es) ?m)
     = (None, ''mouseup'',
      \<lparr>catalogCanvasCleared = False, width = 800, height = 600, callbacksByEventName = None,
       calls = [SetCursor ''crosshair'', ShowReticle False, SetMode SELECT, RequestRedraw,
         Callback 1 (circle_region 0 0 5 25), ShowReticle True, SetCursor ''default'',
         SetMode PAN, RequestRedraw]\<rparr>)"
    by (simp add: pointer_event_def dispatch_def handler_at_simps start_def mousedown_def
        mousemove_def mouseup_def Let_def invoke_callback_def notify_select_def emit_def
        observe_def d sqrt_25)
  show ?thesis
    using restart_reads_no_stale_state [OF idle, where opts = ?opts and p = ?p and es = ?es
        and k = "Function 9" and a = "Some \<lparr>coo_x = 10, coo_y = 10\<rparr>"
        and c = "Some \<lparr>coo_x = 20, coo_y = 20\<rparr>"] fresh
    by (simp add: start_event_def)
qed

subsection \<open>C8: the bounding box\<close>



subsection \<open>C9: the table is closed\<close>

text \<open>
  Claim C9: every event name under which the table registers a handler is a state name
  of the table; the initial state is one; and so is the state after any script of
  dispatches on a fresh instance, thrown exceptions included.
\<close>

theorem transition_table_is_closed:
  "closed_table (transitions opts) \<and>
   state (CircleSelect v) \<in> set (map fst (transitions opts)) \<and>
   state (settled (run opts es (CircleSelect v))) \<in> set (map fst (transitions opts))"
proof -
  have a: "closed_table (transitions opts)"
    by (simp add: closed_table_def transitions_def)
  have b: "state (CircleSelect v) \<in> set (map fst (transitions opts))"
    by (simp add: CircleSelect_def transitions_def)
  from b have "state (settled (run opts es (CircleSelect v))) \<in> set (map fst (transitions opts))"
    by (rule key_run)
  then show ?thesis using a b by simp
qed

subsection \<open>C10: the handlers read coordinates that are there\<close>

text \<open>
  Claim C10: on a fresh instance, a script of events as the view delivers them throws
  nothing; and whenever it leaves the machine in a state where \<^verbatim>\<open>draw\<close>, \<^verbatim>\<open>mouseup\<close> or
  \<^verbatim>\<open>mouseout\<close> has a handler, the anchor and the pointer position are set. They are the ones
  of the current gesture: what the script does is the same for any anchor and pointer
  position stored beforehand.
\<close>

theorem handlers_never_read_undefined:
  assumes "list_all wf_event es"
  shows
    "\<exists>m'. run opts es (CircleSelect v) = Inr m' \<and>
       (handler_at opts (state m') ''draw'' \<noteq> None \<or>
        handler_at opts (state m') ''mouseup'' \<noteq> None \<or>
        handler_at opts (state m') ''mouseout'' \<noteq> None \<longrightarrow>
          startCoo m' \<noteq> None \<and> coo m' \<noteq> None) \<and>
       observe (run opts es ((CircleSelect v)\<lparr>startCoo := a, coo := c\<rparr>)) =
         observe (run opts es (CircleSelect v))"
proof -
  have "anchored (CircleSelect v)" by (simp add: anchored_def CircleSelect_def)
  then obtain m' where m': "run opts es (CircleSelect v) = Inr m'" "anchored m'"
    using assms anchored_run by blast
  have rd: "startCoo m' \<noteq> None \<and> coo m' \<noteq> None"
    if "handler_at opts (state m') ''draw'' \<noteq> None \<or>
        handler_at opts (state m') ''mouseup'' \<noteq> None \<or>
        handler_at opts (state m') ''mouseout'' \<noteq> None"
  proof -
    have "state m' = ''mousemove'' \<or> state m' = ''draw''" using that by (rule finalizer_states)
    then show ?thesis using m'(2) by (auto simp: anchored_def)
  qed
  have "stale_eq ((CircleSelect v)\<lparr>startCoo := a, coo := c\<rparr>) (CircleSelect v)"
    by (simp add: stale_eq_def CircleSelect_def)
  then have "stale_eq_outcome (run opts es ((CircleSelect v)\<lparr>startCoo := a, coo := c\<rparr>))
      (run opts es (CircleSelect v))"
    by (rule stale_run)
  then have "observe (run opts es ((CircleSelect v)\<lparr>startCoo := a, coo := c\<rparr>)) =
         observe (run opts es (CircleSelect v))"
    by (rule observe_stale_eq)
  then show ?thesis using m'(1) rd by blast
qed

text \<open>
  An instance of C10: after \<^verbatim>\<open>start\<close>, \<^verbatim>\<open>mousedown\<close> at (0,0), \<^verbatim>\<open>mousemove\<close> at (1,1) and
  \<^verbatim>\<open>draw\<close>, the anchor is (0,0) and the pointer position is (1,1).
\<close>

theorem handlers_never_read_undefined_witness:
  "list_all wf_event
     [start_event (Function 0), pointer_event ''mousedown'' 0 0,
      pointer_event ''mousemove'' 1 1, (''draw'', None)] \<and>
   (\<exists>m'. run \<lparr>color = ''#00ff00'', lineWidth = 2\<rparr>
      [start_event (Function 0), pointer_event ''mousedown'' 0 0,
       pointer_event ''mousemove'' 1 1, (''draw'', None)]
      (CircleSelect \<lparr>catalogCanvasCleared = False, width = 800, height = 600,
         callbacksByEventName = None, calls = []\<rparr>) = Inr m' \<and>
      state m' = ''draw'' \<and>
      startCoo m' = Some \<lparr>coo_x = 0, coo_y = 0\<rparr> \<and> coo m' = Some \<lparr>coo_x = 1, coo_y = 1\<rparr>)"
proof -
  let ?opts = "\<lparr>color = ''#00ff00'', lineWidth = 2\<rparr>"
  let ?v = "\<lparr>catalogCanvasCleared = False, width = 800, height = 600,
         callbacksByEventName = None, calls = []\<rparr>"
  let ?es = "[start_event (Function 0), pointer_event ''mousedown'' 0 0,
      pointer_event ''mousemove'' 1 1, (''draw'', None)]"
  have wf: "list_all wf_event ?es"
    by (simp add: wf_event_def start_event_def pointer_event_def)
  obtain m' where m': "run ?opts ?es (CircleSelect ?v) = Inr m'"
    using handlers_never_read_undefined [OF wf, of ?opts ?v] by blast
  have "state (settled (run ?opts ?es (CircleSelect ?v))) = ''draw'' \<and>
      startCoo (settled (run ?opts ?es (CircleSelect ?v))) = Some \<lparr>coo_x = 0, coo_y = 0\<rparr> \<and>
      coo (settled (run ?opts ?es (CircleSelect ?v))) = Some \<lparr>coo_x = 1, coo_y = 1\<rparr>"
    by (simp add: start_event_def pointer_event_def CircleSelect_def dispatch_def
        handler_at_simps start_def mousedown_def mousemove_def draw_def clear_once_def
        Let_def emit_def)
  then show ?thesis using wf m' by simp
qed

end
